theory Spec2Isabelle
  imports Complex_Main "HOL-Library.Sublist"
begin

section \<open>Data model\<close>

text \<open>
  The storefront client (\<^verbatim>\<open>src/App.tsx\<close>) keeps a cart of menu items with quantities,
  submits orders, watches order updates and guards an admin prompt behind a tap counter.
  The declarations of \<^verbatim>\<open>./types\<close> are not among the sources at hand; the records
  below carry the fields that \<^verbatim>\<open>App.tsx\<close> reads and writes. Amounts and quantities
  are whole numbers and are modelled as exact integers; strings are byte lists (a character
  outside ASCII is its UTF-8 bytes). Field names that would clash with each other or with
  constants of HOL carry the record's name: \<^verbatim>\<open>id\<close> and \<^verbatim>\<open>name\<close> of an item are
  \<open>item_id\<close> and \<open>item_name\<close>, \<^verbatim>\<open>id\<close> of an order is \<open>order_id\<close>, \<^verbatim>\<open>id\<close> of a
  notification is \<open>notif_id\<close>, \<^verbatim>\<open>name\<close> and \<^verbatim>\<open>phone\<close> of a profile are
  \<open>profile_name\<close> and \<open>profile_phone\<close>.
\<close>

record MenuItem =
  item_id :: string
  item_name :: string
  price :: int

record CartItem = MenuItem +
  quantity :: int

record UserDetails =
  name :: string
  phone :: string
  address :: string

record UserProfile =
  profile_name :: string
  profile_phone :: string

text \<open>
  Modelled from the spec: the enumeration \<^verbatim>\<open>OrderStatus\<close> is declared in \<^verbatim>\<open>./types\<close>,
  which is missing. Its members are \<^verbatim>\<open>PENDING\<close>, \<^verbatim>\<open>CONFIRMED\<close>, \<^verbatim>\<open>DELIVERED\<close> and
  \<^verbatim>\<open>CANCELLED\<close>; a status is the string of a row of the \<^verbatim>\<open>orders\<close> table, and each
  member is taken to be the string of its own name.
\<close>

type_synonym OrderStatus = string

definition OrderStatus_PENDING :: OrderStatus where
  "OrderStatus_PENDING = ''PENDING''"

definition OrderStatus_CONFIRMED :: OrderStatus where
  "OrderStatus_CONFIRMED = ''CONFIRMED''"

definition OrderStatus_DELIVERED :: OrderStatus where
  "OrderStatus_DELIVERED = ''DELIVERED''"

definition OrderStatus_CANCELLED :: OrderStatus where
  "OrderStatus_CANCELLED = ''CANCELLED''"

text \<open>
  An order refers to its items through \<open>'c\<close>, the cart value that \<^verbatim>\<open>items: cart\<close> stores:
  a list of entries where only the entries matter, an array reference where the sharing
  between the order and the live cart matters. \<open>userDetails\<close> is optional because the
  watcher tests it for presence in the rows it receives.
\<close>

record 'c Order =
  order_id :: string
  items :: 'c
  totalAmount :: int
  userDetails :: "UserDetails option"
  status :: OrderStatus
  timestamp :: int
  paymentId :: string

text \<open>
  A local notification as \<^verbatim>\<open>LocalNotifications.schedule\<close> receives it: \<open>fire_at\<close> is
  \<^verbatim>\<open>schedule.at\<close> in milliseconds. The other fields the source passes are constants
  (\<^verbatim>\<open>sound: undefined\<close>, \<^verbatim>\<open>actionTypeId: ""\<close>, \<^verbatim>\<open>extra: null\<close>).
\<close>

record Notification =
  title :: string
  body :: string
  notif_id :: int
  fire_at :: int

datatype View = LOGIN | HOME | CART | CHECKOUT | SUCCESS | ADMIN_DASHBOARD | MY_ORDERS

section \<open>Cart aggregator\<close>

text \<open>
  \<^verbatim>\<open>addToCart\<close> and \<^verbatim>\<open>updateCartQuantity\<close> hand React an updater \<^verbatim>\<open>prev => ...\<close>; the
  functions below are these updaters, from the previous cart to the next one.
  \<^verbatim>\<open>{ ...item, quantity: 1 }\<close> copies the fields of the menu item and sets the quantity.
\<close>

definition addToCart :: "MenuItem \<Rightarrow> CartItem list \<Rightarrow> CartItem list" where
  "addToCart item prev =
     (case find (\<lambda>i. item_id i = item_id item) prev of
        Some existing \<Rightarrow>
          map (\<lambda>i. if item_id i = item_id item then i\<lparr>quantity := quantity i + 1\<rparr> else i) prev
      | None \<Rightarrow>
          prev @ [\<lparr>item_id = item_id item, item_name = item_name item, price = price item,
                   quantity = 1\<rparr>])"

definition updateCartQuantity :: "string \<Rightarrow> int \<Rightarrow> CartItem list \<Rightarrow> CartItem list" where
  "updateCartQuantity itemId delta prev =
     filter (\<lambda>item. quantity item > 0)
       (map (\<lambda>item. if item_id item = itemId
                     then item\<lparr>quantity := max 0 (quantity item + delta)\<rparr>
                     else item) prev)"

text \<open>The entry of a cart with a given id, if any (the first one, as \<^verbatim>\<open>find\<close> returns it).\<close>

definition entry :: "string \<Rightarrow> CartItem list \<Rightarrow> CartItem option" where
  "entry itemId cart = find (\<lambda>i. item_id i = itemId) cart"

text \<open>The resting state of a cart: every quantity positive, no id twice.\<close>

definition all_positive :: "CartItem list \<Rightarrow> bool" where
  "all_positive cart = list_all (\<lambda>i. quantity i > 0) cart"

definition unique_ids :: "CartItem list \<Rightarrow> bool" where
  "unique_ids cart = distinct (map item_id cart)"

text \<open>
  What the specification asks of \<^verbatim>\<open>updateQuantity\<close> for one entry: the entry with the
  given id gets the quantity \<open>max 0 (quantity + delta)\<close> and disappears when that is 0;
  any other entry stays.
\<close>

definition updated_entry :: "string \<Rightarrow> int \<Rightarrow> CartItem \<Rightarrow> CartItem list" where
  "updated_entry itemId delta i =
     (if item_id i = itemId
      then (if max 0 (quantity i + delta) = 0 then []
            else [i\<lparr>quantity := max 0 (quantity i + delta)\<rparr>])
      else [i])"

section \<open>Numbers and strings of the platform\<close>

text \<open>
  \<^verbatim>\<open>Math.round\<close> returns the nearest integer, a tie going to the larger one. The tax is
  \<^verbatim>\<open>Math.round(itemTotal * 0.05)\<close>; the product is taken exactly here. For a whole
  \<open>itemTotal\<close> from 0 up to \<open>2^52\<close> the double-precision product rounds to the same integer:
  the double nearest to 0.05 lies above it, so a product that is exactly a half does not
  drop below the half, and any other product is 0.05 or more away from a half.
\<close>

definition Math_round :: "real \<Rightarrow> int" where
  "Math_round x = \<lfloor>x + 1 / 2\<rfloor>"

text \<open>A whole number in a template literal: its decimal digits, after a minus sign if negative.\<close>

definition digit :: "nat \<Rightarrow> char" where
  "digit n = ''0123456789'' ! (n mod 10)"

function decimal :: "nat \<Rightarrow> string" where
  "decimal n = (if n < 10 then [digit n] else decimal (n div 10) @ [digit n])"
  by pat_completeness auto
termination
  by (relation "measure (\<lambda>n. n)") auto

declare decimal.simps [simp del]

definition number_string :: "int \<Rightarrow> string" where
  "number_string n = (if n < 0 then CHR ''-'' # decimal (nat (- n)) else decimal (nat n))"

text \<open>\<^verbatim>\<open>lines.join('\n')\<close>\<close>

fun join_lines :: "string list \<Rightarrow> string" where
  "join_lines [] = []"
| "join_lines [l] = l"
| "join_lines (l # ls) = l @ [CHR 0x0A] @ join_lines ls"

text \<open>
  \<^verbatim>\<open>encodeURIComponent\<close> keeps letters, digits and \<^verbatim>\<open>- _ . ! ~ * ' ( )\<close> and writes any
  other byte of the UTF-8 text as \<^verbatim>\<open>%\<close> and two upper-case hexadecimal digits.
\<close>

definition unreserved :: "char \<Rightarrow> bool" where
  "unreserved c \<longleftrightarrow>
     c \<in> set (''ABCDEFGHIJKLMNOPQRSTUVWXYZabcdefghijklmnopqrstuvwxyz0123456789-_.!~*()'' @ [CHR 0x27])"

definition hex_digit :: "nat \<Rightarrow> char" where
  "hex_digit n = ''0123456789ABCDEF'' ! (n mod 16)"

definition percent_encode :: "char \<Rightarrow> string" where
  "percent_encode c =
     (if unreserved c then [c]
      else [CHR ''%'', hex_digit (of_char c div 16), hex_digit (of_char c)])"

definition encodeURIComponent :: "string \<Rightarrow> string" where
  "encodeURIComponent s = concat (map percent_encode s)"

section \<open>Calls to the collaborators, exceptions\<close>

text \<open>
  The handlers of \<^verbatim>\<open>App.tsx\<close> act through calls to the persistence store, the haptics
  and notification plugins, the state setters of React and the browser window. An
  execution is the sequence of the calls it made, in order, and how it ended: it returned,
  or a call threw and nothing caught it.
\<close>

datatype 'c effect =
    SaveOrder "'c Order"
  | SaveLastOrder 'c
  | HapticsNotification
  | LocalNotificationsSchedule "Notification list"
  | SetCart_empty
  | SetView View
  | WindowOpen string

datatype 'c outcome = Returned | Thrown "'c effect"

type_synonym 'c exec = "'c effect list \<times> 'c outcome"

type_synonym 'c stmt = "'c effect list \<Rightarrow> 'c exec"

text \<open>A call is made (it enters the trace) and then throws or returns.\<close>

definition call :: "'c effect \<Rightarrow> bool \<Rightarrow> 'c stmt" where
  "call e throws tr = (tr @ [e], if throws then Thrown e else Returned)"

text \<open>Statements in sequence: an exception skips the statements after it.\<close>

fun block :: "'c stmt list \<Rightarrow> 'c stmt" where
  "block [] tr = (tr, Returned)"
| "block (s # ss) tr =
     (case s tr of
        (tr', Returned) \<Rightarrow> block ss tr'
      | (tr', Thrown e) \<Rightarrow> (tr', Thrown e))"

text \<open>\<^verbatim>\<open>try { s } catch (e) {}\<close>\<close>

definition try_catch :: "'c stmt \<Rightarrow> 'c stmt" where
  "try_catch s tr = (case s tr of (tr', r) \<Rightarrow> (tr', Returned))"

text \<open>
  What the collaborators answer during one run of a handler: the values they return and
  which of the calls throw. \<open>Date_now\<close> is the clock at the first reading and
  \<open>Date_now_later\<close> at the second one, \<open>Math_random\<close> a number from 0 up to, not
  including, 1.
\<close>

record Env =
  generateOrderId :: string
  getDeliveryFee :: int
  Date_now :: int
  Date_now_later :: int
  Math_random :: real
  saveOrder_throws :: bool
  saveLastOrder_throws :: bool
  haptics_throws :: bool
  schedule_throws :: bool

text \<open>Reading a trace.\<close>

fun scheduled :: "'c effect list \<Rightarrow> Notification list" where
  "scheduled [] = []"
| "scheduled (LocalNotificationsSchedule ns # tr) = ns @ scheduled tr"
| "scheduled (e # tr) = scheduled tr"

fun saved_orders :: "'c effect list \<Rightarrow> 'c Order list" where
  "saved_orders [] = []"
| "saved_orders (SaveOrder ord # tr) = ord # saved_orders tr"
| "saved_orders (e # tr) = saved_orders tr"

text \<open>
  \<open>precedes a b tr\<close>: no \<open>b\<close> occurs in \<open>tr\<close> before the first \<open>a\<close>, so every
  occurrence of \<open>b\<close> comes strictly after an occurrence of \<open>a\<close>.
\<close>

definition precedes :: "'a \<Rightarrow> 'a \<Rightarrow> 'a list \<Rightarrow> bool" where
  "precedes a b tr \<longleftrightarrow> b \<notin> set (takeWhile (\<lambda>e. e \<noteq> a) tr)"

section \<open>Pricing and order submission\<close>

text \<open>
  The total that the \<^verbatim>\<open>CHECKOUT\<close> view hands to the checkout form
  (\<^verbatim>\<open>App.tsx\<close>, lines 312 to 320).
\<close>

definition checkout_finalTotal :: "Env \<Rightarrow> CartItem list \<Rightarrow> int" where
  "checkout_finalTotal env cart =
     (let total = foldl (\<lambda>acc i. acc + price i * quantity i) 0 cart;
          itemTotal = total;
          platformFee = 5;
          deliveryFee = getDeliveryFee env;
          gst = Math_round (of_int itemTotal * 0.05);
          finalTotal = itemTotal + platformFee + deliveryFee + gst
      in finalTotal)"

text \<open>The text handed to the messaging application.\<close>

definition order_message ::
  "string \<Rightarrow> UserDetails \<Rightarrow> CartItem list \<Rightarrow> int \<Rightarrow> string \<Rightarrow> string" where
  "order_message oid details cart finalTotal payment =
     ''*New Order: '' @ oid @ ''*'' @ [CHR 0x0A] @
     ''Name: '' @ name details @ [CHR 0x0A] @
     ''Phone: '' @ phone details @ [CHR 0x0A] @
     ''Address: '' @ address details @ [CHR 0x0A] @
     ''Items:'' @ [CHR 0x0A] @
     join_lines (map (\<lambda>i. ''- '' @ number_string (quantity i) @ '' x '' @ item_name i) cart)
       @ [CHR 0x0A] @
     ''Total: '' @ [CHR 0xE2, CHR 0x82, CHR 0xB9] @ number_string finalTotal @ [CHR 0x0A] @
     ''Payment ID: '' @ payment"

definition miss_you :: "Env \<Rightarrow> Notification" where
  "miss_you env =
     \<lparr>title = ''Miss you! '' @ [CHR 0xF0, CHR 0x9F, CHR 0xA5, CHR 0xBA],
      body = ''It's been 2 days... Fresh tiffins are ready!'',
      notif_id = 999,
      fire_at = Date_now_later env + 48 * 60 * 60 * 1000\<rparr>"

text \<open>
  \<^verbatim>\<open>handlePlaceOrder\<close> (lines 194 to 248). \<open>cart\<close> is the cart of the render that the
  handler closes over and \<open>entries\<close> reads its entries. The two persistence calls stand
  outside any \<^verbatim>\<open>try\<close>; the haptic call and the scheduling of the reminder are each wrapped
  in \<^verbatim>\<open>try { ... } catch (e) {}\<close>.
\<close>

definition handlePlaceOrder ::
  "('c \<Rightarrow> CartItem list) \<Rightarrow> Env \<Rightarrow> 'c \<Rightarrow> UserDetails \<Rightarrow> string \<Rightarrow> 'c exec" where
  "handlePlaceOrder entries env cart details payment =
     (let total = foldl (\<lambda>acc i. acc + price i * quantity i) 0 (entries cart);
          itemTotal = total;
          platformFee = 5;
          deliveryFee = getDeliveryFee env;
          gst = Math_round (of_int itemTotal * 0.05);
          finalTotal = itemTotal + platformFee + deliveryFee + gst;
          newOrder = \<lparr>order_id = generateOrderId env,
                      items = cart,
                      totalAmount = finalTotal,
                      userDetails = Some details,
                      status = OrderStatus_PENDING,
                      timestamp = Date_now env,
                      paymentId = payment\<rparr>;
          message = order_message (order_id newOrder) details (entries cart) finalTotal payment;
          whatsappUrl = ''https://wa.me/919959730602?text='' @ encodeURIComponent message
      in block
           [call (SaveOrder newOrder) (saveOrder_throws env),
            call (SaveLastOrder cart) (saveLastOrder_throws env),
            try_catch (call HapticsNotification (haptics_throws env)),
            try_catch (call (LocalNotificationsSchedule [miss_you env]) (schedule_throws env)),
            call SetCart_empty False,
            call (SetView SUCCESS) False,
            call (WindowOpen whatsappUrl) False]
           [])"

text \<open>
  The order that \<open>handlePlaceOrder\<close> builds, its total written as a sum over the entries.
\<close>

definition order_of :: "('c \<Rightarrow> CartItem list) \<Rightarrow> Env \<Rightarrow> 'c \<Rightarrow> UserDetails \<Rightarrow> string \<Rightarrow> 'c Order" where
  "order_of entries env cart details payment =
     \<lparr>order_id = generateOrderId env, items = cart,
      totalAmount = (\<Sum>i\<leftarrow>entries cart. price i * quantity i) + 5 + getDeliveryFee env +
        Math_round (of_int (\<Sum>i\<leftarrow>entries cart. price i * quantity i) * 0.05),
      userDetails = Some details, status = OrderStatus_PENDING, timestamp = Date_now env,
      paymentId = payment\<rparr>"

section \<open>Realtime order notifications\<close>

text \<open>
  \<^verbatim>\<open>triggerStatusNotification\<close> (lines 74 to 110): the scheduling is awaited outside any
  \<^verbatim>\<open>try\<close>, the vibration follows it.
\<close>

definition status_notification :: "Env \<Rightarrow> 'c Order \<Rightarrow> Notification" where
  "status_notification env ord =
     (let title0 = ''Order Update'';
          body0 = ''Your order status has changed to '' @ status ord;
          (title1, body1) =
            (if status ord = OrderStatus_CONFIRMED then
               (''Order Confirmed! '' @ [CHR 0xF0, CHR 0x9F, CHR 0x8D, CHR 0xB3],
                ''We've received your order and are preparing it.'')
             else if status ord = OrderStatus_DELIVERED then
               (''Order Delivered! '' @ [CHR 0xF0, CHR 0x9F, CHR 0x98, CHR 0x8B],
                ''Your tiffins have been delivered. Enjoy your meal!'')
             else if status ord = OrderStatus_CANCELLED then
               (''Order Cancelled '' @ [CHR 0xE2, CHR 0x9D, CHR 0x8C],
                ''Your order was cancelled. Please contact support if this was a mistake.'')
             else (title0, body0))
      in \<lparr>title = title1,
          body = body1,
          notif_id = \<lfloor>Math_random env * 100000\<rfloor>,
          fire_at = Date_now env + 100\<rparr>)"

definition triggerStatusNotification :: "Env \<Rightarrow> 'c Order \<Rightarrow> 'c stmt" where
  "triggerStatusNotification env ord =
     block
       [call (LocalNotificationsSchedule [status_notification env ord]) (schedule_throws env),
        call HapticsNotification (haptics_throws env)]"

text \<open>
  The callback of the subscription to updates of the \<^verbatim>\<open>orders\<close> table (lines 52 to 65),
  and the effect that installs it only when a user is logged in (line 44).
\<close>

definition on_order_update :: "UserProfile \<Rightarrow> Env \<Rightarrow> 'c Order \<Rightarrow> 'c Order \<Rightarrow> 'c stmt" where
  "on_order_update currentUser env newOrder oldOrder =
     (case userDetails newOrder of
        Some details \<Rightarrow>
          if phone details = profile_phone currentUser
          then (if status newOrder \<noteq> status oldOrder
                then triggerStatusNotification env newOrder
                else block [])
          else block []
      | None \<Rightarrow> block [])"

definition order_update_event ::
  "UserProfile option \<Rightarrow> Env \<Rightarrow> 'c Order \<Rightarrow> 'c Order \<Rightarrow> 'c exec" where
  "order_update_event currentUser env newOrder oldOrder =
     (case currentUser of
        None \<Rightarrow> ([], Returned)
      | Some user \<Rightarrow> on_order_update user env newOrder oldOrder [])"

section \<open>Admin gate\<close>

text \<open>
  The tap counter (lines 26 and 138 to 154). \<open>timer\<close> is the pending timeout, as the
  time at which it fires; \<open>clock\<close> is the time in milliseconds; \<open>prompts\<close> counts the
  calls \<^verbatim>\<open>setShowPinModal(true)\<close>.
\<close>

record Gate =
  logoClickCount :: nat
  showPinModal :: bool
  timer :: "nat option"
  clock :: nat
  prompts :: nat

definition initial_gate :: Gate where
  "initial_gate = \<lparr>logoClickCount = 0, showPinModal = False, timer = None, clock = 0, prompts = 0\<rparr>"

text \<open>
  The effect on \<^verbatim>\<open>[logoClickCount]\<close>, run after a render in which the count changed.
  The cleanup of the previous run clears its timeout first. With a count above 0 a new
  timeout of 2000 ms is set; with a count of 5 or more the prompt is shown and the count
  set to 0, which makes React render and run the effect once more.
\<close>

function logo_effect :: "Gate \<Rightarrow> Gate" where
  "logo_effect g =
     (let g0 = g\<lparr>timer := None\<rparr>;
          g1 = (if logoClickCount g0 > 0 then g0\<lparr>timer := Some (clock g0 + 2000)\<rparr> else g0)
      in if logoClickCount g1 \<ge> 5
         then logo_effect (g1\<lparr>showPinModal := True, prompts := prompts g1 + 1,
                              logoClickCount := 0\<rparr>)
         else g1)"
  by pat_completeness auto
termination
  by (relation "measure logoClickCount") (auto split: if_splits)

declare logo_effect.simps [simp del]

text \<open>\<^verbatim>\<open>handleLogoClick\<close>: \<^verbatim>\<open>setLogoClickCount(prev => prev + 1)\<close>, then the effect.\<close>

definition handleLogoClick :: "Gate \<Rightarrow> Gate" where
  "handleLogoClick g = logo_effect (g\<lparr>logoClickCount := logoClickCount g + 1\<rparr>)"

text \<open>
  Time passes by \<open>d\<close> milliseconds without a tap. A timeout whose time has come fires:
  \<^verbatim>\<open>setLogoClickCount(0)\<close>, then the effect.
\<close>

definition elapse :: "nat \<Rightarrow> Gate \<Rightarrow> Gate" where
  "elapse d g =
     (let g' = g\<lparr>clock := clock g + d\<rparr>
      in case timer g' of
           Some t \<Rightarrow> if t \<le> clock g' then logo_effect (g'\<lparr>logoClickCount := 0\<rparr>) else g'
         | None \<Rightarrow> g')"

text \<open>Taps in a row, each after the given gap since the tap before.\<close>

fun taps :: "nat list \<Rightarrow> Gate \<Rightarrow> Gate" where
  "taps [] g = g"
| "taps (d # ds) g = taps ds (handleLogoClick (elapse d g))"

section \<open>The cart in memory\<close>

text \<open>
  \<^verbatim>\<open>items: cart\<close> stores in the order the very array that is the cart of the current
  render, not a copy of it. What later cart operations do to the order therefore depends
  on what they do to that array and to the entry objects in it. Arrays and entry objects
  live at references; \<open>next_ref\<close> is the first reference not yet in use.
\<close>

type_synonym ref = nat

record Heap =
  objects :: "ref \<Rightarrow> CartItem"
  arrays :: "ref \<Rightarrow> ref list"
  next_ref :: ref

definition new_object :: "CartItem \<Rightarrow> Heap \<Rightarrow> ref \<times> Heap" where
  "new_object v h =
     (next_ref h, h\<lparr>objects := (objects h)(next_ref h := v), next_ref := Suc (next_ref h)\<rparr>)"

definition new_array :: "ref list \<Rightarrow> Heap \<Rightarrow> ref \<times> Heap" where
  "new_array rs h =
     (next_ref h, h\<lparr>arrays := (arrays h)(next_ref h := rs), next_ref := Suc (next_ref h)\<rparr>)"

definition array_entries :: "Heap \<Rightarrow> ref \<Rightarrow> CartItem list" where
  "array_entries h a = map (objects h) (arrays h a)"

text \<open>
  \<^verbatim>\<open>prev.map(i => c(i) ? { ...i, quantity: q(i) } : i)\<close>: the callback answers with a new
  object (\<open>Some\<close> of its value) or with the element itself (\<open>None\<close>). The elements of
  the result are gathered here; the caller puts them in a new array.
\<close>

fun map_refs :: "(CartItem \<Rightarrow> CartItem option) \<Rightarrow> ref list \<Rightarrow> Heap \<Rightarrow> ref list \<times> Heap" where
  "map_refs f [] h = ([], h)"
| "map_refs f (r # rs) h =
     (case f (objects h r) of
        None \<Rightarrow> (let (rs', h') = map_refs f rs h in (r # rs', h'))
      | Some v \<Rightarrow>
          (let (r', h1) = new_object v h;
               (rs', h2) = map_refs f rs h1
           in (r' # rs', h2)))"

definition addToCart_heap :: "MenuItem \<Rightarrow> ref \<Rightarrow> Heap \<Rightarrow> ref \<times> Heap" where
  "addToCart_heap item prev h =
     (case find (\<lambda>i. item_id i = item_id item) (array_entries h prev) of
        Some existing \<Rightarrow>
          (let (rs, h1) =
                 map_refs (\<lambda>i. if item_id i = item_id item
                                then Some (i\<lparr>quantity := quantity i + 1\<rparr>) else None)
                   (arrays h prev) h
           in new_array rs h1)
      | None \<Rightarrow>
          (let (r, h1) =
                 new_object \<lparr>item_id = item_id item, item_name = item_name item,
                             price = price item, quantity = 1\<rparr> h
           in new_array (arrays h prev @ [r]) h1))"

definition updateCartQuantity_heap :: "string \<Rightarrow> int \<Rightarrow> ref \<Rightarrow> Heap \<Rightarrow> ref \<times> Heap" where
  "updateCartQuantity_heap itemId delta prev h =
     (let (rs, h1) =
            map_refs (\<lambda>item. if item_id item = itemId
                              then Some (item\<lparr>quantity := max 0 (quantity item + delta)\<rparr>)
                              else None)
              (arrays h prev) h;
          (mapped, h2) = new_array rs h1
      in new_array (filter (\<lambda>r. quantity (objects h2 r) > 0) (arrays h2 mapped)) h2)"

text \<open>The state of the component that matters here: which array is the cart.\<close>

record Session =
  cart_ref :: ref
  heap :: Heap

datatype cart_action = AddToCart MenuItem | UpdateQuantity string int | ClearCart

text \<open>\<^verbatim>\<open>setCart(updater)\<close>, and \<^verbatim>\<open>setCart([])\<close> for \<open>ClearCart\<close>.\<close>

fun perform :: "Session \<Rightarrow> cart_action \<Rightarrow> Session" where
  "perform s (AddToCart item) =
     (let (a, h) = addToCart_heap item (cart_ref s) (heap s) in \<lparr>cart_ref = a, heap = h\<rparr>)"
| "perform s (UpdateQuantity itemId delta) =
     (let (a, h) = updateCartQuantity_heap itemId delta (cart_ref s) (heap s)
      in \<lparr>cart_ref = a, heap = h\<rparr>)"
| "perform s ClearCart =
     (let (a, h) = new_array [] (heap s) in \<lparr>cart_ref = a, heap = h\<rparr>)"

text \<open>What a call of a handler does to the session: only \<^verbatim>\<open>setCart([])\<close> touches it.\<close>

fun apply_effect :: "Session \<Rightarrow> ref effect \<Rightarrow> Session" where
  "apply_effect s SetCart_empty = perform s ClearCart"
| "apply_effect s e = s"

text \<open>An array of the heap is in use, and so are the objects it holds.\<close>

definition in_use :: "Heap \<Rightarrow> ref \<Rightarrow> bool" where
  "in_use h a \<longleftrightarrow> a < next_ref h \<and> list_all (\<lambda>r. r < next_ref h) (arrays h a)"

text \<open>An order as a reader sees it: its fields, with the entries its \<open>items\<close> refers to.\<close>

definition order_view :: "Heap \<Rightarrow> ref Order \<Rightarrow> (CartItem list) Order" where
  "order_view h ord =
     \<lparr>order_id = order_id ord, items = array_entries h (items ord),
      totalAmount = totalAmount ord, userDetails = userDetails ord, status = status ord,
      timestamp = timestamp ord, paymentId = paymentId ord\<rparr>"

text \<open>
  \<open>extends h h'\<close>: the heap \<open>h'\<close> has everything that was in use in \<open>h\<close>, unchanged,
  and possibly more.
\<close>

definition extends :: "Heap \<Rightarrow> Heap \<Rightarrow> bool" where
  "extends h h' \<longleftrightarrow>
     next_ref h \<le> next_ref h' \<and>
     (\<forall>a<next_ref h. objects h' a = objects h a \<and> arrays h' a = arrays h a)"

section \<open>Sample data\<close>

definition idli :: MenuItem where
  "idli = \<lparr>item_id = ''A'', item_name = ''Idli'', price = 100\<rparr>"

definition dosa :: MenuItem where
  "dosa = \<lparr>item_id = ''B'', item_name = ''Dosa'', price = 60\<rparr>"

definition vada :: MenuItem where
  "vada = \<lparr>item_id = ''C'', item_name = ''Vada'', price = 40\<rparr>"

definition in_cart :: "MenuItem \<Rightarrow> int \<Rightarrow> CartItem" where
  "in_cart m q = \<lparr>item_id = item_id m, item_name = item_name m, price = price m, quantity = q\<rparr>"

definition asha :: UserDetails where
  "asha = \<lparr>name = ''Asha'', phone = ''9000000001'', address = ''12 Temple Road''\<rparr>"

definition asha_profile :: UserProfile where
  "asha_profile = \<lparr>profile_name = ''Asha'', profile_phone = ''9000000001''\<rparr>"

definition ravi :: UserDetails where
  "ravi = \<lparr>name = ''Ravi'', phone = ''9000000002'', address = ''3 Lake View''\<rparr>"

definition calm_env :: Env where
  "calm_env =
     \<lparr>generateOrderId = ''ORD-1'', getDeliveryFee = 20, Date_now = 1000, Date_now_later = 1005,
      Math_random = 655 / 65536,
      saveOrder_throws = False, saveLastOrder_throws = False,
      haptics_throws = False, schedule_throws = False\<rparr>"

definition sample_order :: "OrderStatus \<Rightarrow> UserDetails \<Rightarrow> (CartItem list) Order" where
  "sample_order st who =
     \<lparr>order_id = ''ORD-1'', items = [in_cart idli 2], totalAmount = 235,
      userDetails = Some who, status = st, timestamp = 1000, paymentId = ''pay_1''\<rparr>"

definition later_env :: Env where
  "later_env =
     \<lparr>generateOrderId = ''ORD-2'', getDeliveryFee = 20, Date_now = 61000, Date_now_later = 61005,
      Math_random = 655 / 65536,
      saveOrder_throws = False, saveLastOrder_throws = False,
      haptics_throws = False, schedule_throws = False\<rparr>"

definition stormy_env :: Env where
  "stormy_env = calm_env\<lparr>haptics_throws := True, schedule_throws := True\<rparr>"

definition sample_heap :: Heap where
  "sample_heap =
     \<lparr>objects = (\<lambda>r. in_cart idli 0)(0 := in_cart idli 2, 1 := in_cart dosa 1),
      arrays = (\<lambda>a. [])(2 := [0, 1]),
      next_ref = 3\<rparr>"

definition sample_session :: Session where
  "sample_session = \<lparr>cart_ref = 2, heap = sample_heap\<rparr>"

section \<open>Properties of the cart aggregator\<close>

lemma find_None_iff_ids: "find (\<lambda>i. item_id i = k) cart = None \<longleftrightarrow> k \<notin> set (map item_id cart)"
  by (induction cart) auto

lemma addToCart_present:
  "k \<in> set (map item_id prev) \<Longrightarrow> item_id item = k \<Longrightarrow>
   addToCart item prev =
     map (\<lambda>i. if item_id i = k then i\<lparr>quantity := quantity i + 1\<rparr> else i) prev"
  using find_None_iff_ids [of k prev]
  by (auto simp: addToCart_def split: option.splits)

lemma addToCart_absent:
  "item_id item \<notin> set (map item_id prev) \<Longrightarrow>
   addToCart item prev =
     prev @ [\<lparr>item_id = item_id item, item_name = item_name item, price = price item,
              quantity = 1\<rparr>]"
  using find_None_iff_ids [of "item_id item" prev]
  by (auto simp: addToCart_def split: option.splits)

lemma ids_addToCart:
  "map item_id (addToCart item prev) =
     (if item_id item \<in> set (map item_id prev) then map item_id prev
      else map item_id prev @ [item_id item])"
proof (cases "item_id item \<in> set (map item_id prev)")
  case True
  have "map item_id (map (\<lambda>i. if item_id i = item_id item
          then i\<lparr>quantity := quantity i + 1\<rparr> else i) prev) = map item_id prev"
    by (induction prev) auto
  with True show ?thesis by (simp add: addToCart_present [OF True refl])
next
  case False
  then show ?thesis by (simp add: addToCart_absent)
qed

lemma unique_ids_addToCart: "unique_ids prev \<Longrightarrow> unique_ids (addToCart item prev)"
  by (auto simp: unique_ids_def ids_addToCart)

lemma positive_addToCart: "all_positive prev \<Longrightarrow> all_positive (addToCart item prev)"
  by (cases "item_id item \<in> set (map item_id prev)")
     (auto simp: all_positive_def addToCart_present addToCart_absent list_all_iff)

lemma positive_updateCartQuantity: "all_positive (updateCartQuantity k d prev)"
  by (simp add: all_positive_def updateCartQuantity_def list_all_iff)

lemma unique_ids_updateCartQuantity:
  "unique_ids prev \<Longrightarrow> unique_ids (updateCartQuantity k d prev)"
proof -
  have ids: "map item_id (updateCartQuantity k d prev) =
      map item_id (filter (\<lambda>i. 0 < (if item_id i = k then max 0 (quantity i + d) else quantity i)) prev)"
    unfolding updateCartQuantity_def by (induction prev) auto
  assume "unique_ids prev"
  then show ?thesis
    unfolding unique_ids_def ids by (simp add: distinct_map_filter)
qed

lemma entry_None_iff: "entry k cart = None \<longleftrightarrow> k \<notin> set (map item_id cart)"
  by (simp add: entry_def find_None_iff_ids)

lemma entry_Some_id: "entry k cart = Some e \<Longrightarrow> item_id e = k \<and> e \<in> set cart"
  unfolding entry_def by (induction cart) (auto split: if_splits)

lemma entry_increment:
  "entry k cart = Some e \<Longrightarrow>
   entry k (map (\<lambda>i. if item_id i = k then i\<lparr>quantity := quantity i + 1\<rparr> else i) cart)
     = Some (e\<lparr>quantity := quantity e + 1\<rparr>)"
  unfolding entry_def by (induction cart) (auto split: if_splits)

lemma updateCartQuantity_concat:
  "all_positive cart \<Longrightarrow>
   updateCartQuantity k d cart = concat (map (updated_entry k d) cart)"
  unfolding updateCartQuantity_def all_positive_def updated_entry_def
  by (induction cart) auto

lemma updateCartQuantity_absent:
  "all_positive cart \<Longrightarrow> entry k cart = None \<Longrightarrow> updateCartQuantity k d cart = cart"
  unfolding updateCartQuantity_def all_positive_def entry_def
  by (induction cart) (auto split: if_splits)

lemma entry_update_unique:
  "all_positive cart \<Longrightarrow> unique_ids cart \<Longrightarrow> entry k cart = Some e \<Longrightarrow>
   entry k (updateCartQuantity k d cart) =
     (if max 0 (quantity e + d) = 0 then None else Some (e\<lparr>quantity := max 0 (quantity e + d)\<rparr>))"
proof (induction cart)
  case Nil
  then show ?case by (simp add: entry_def)
next
  case (Cons a cart)
  show ?case
  proof (cases "item_id a = k")
    case True
    with Cons.prems have ae: "a = e" by (simp add: entry_def)
    from True Cons.prems have "k \<notin> set (map item_id cart)" by (simp add: unique_ids_def)
    then have none: "entry k cart = None" by (simp add: entry_None_iff)
    from Cons.prems have pos: "all_positive cart" by (simp add: all_positive_def)
    have rest: "updateCartQuantity k d cart = cart"
      by (rule updateCartQuantity_absent [OF pos none])
    have step: "updateCartQuantity k d (a # cart) =
        (if 0 < max 0 (quantity a + d) then [a\<lparr>quantity := max 0 (quantity a + d)\<rparr>] else [])
          @ updateCartQuantity k d cart"
      using True by (simp add: updateCartQuantity_def)
    have "entry k (updateCartQuantity k d (a # cart)) =
        entry k ((if 0 < max 0 (quantity a + d) then [a\<lparr>quantity := max 0 (quantity a + d)\<rparr>] else [])
          @ cart)"
      by (simp only: step rest)
    then show ?thesis
      using none True ae by (auto simp: entry_def)
  next
    case False
    with Cons.prems have e: "entry k cart = Some e" by (simp add: entry_def)
    from Cons.prems have pos: "all_positive cart" "0 < quantity a" and u: "unique_ids cart"
      by (simp_all add: all_positive_def unique_ids_def)
    have step: "updateCartQuantity k d (a # cart) = a # updateCartQuantity k d cart"
      using False pos by (simp add: updateCartQuantity_def)
    have "entry k (updateCartQuantity k d (a # cart)) = entry k (updateCartQuantity k d cart)"
      using False by (simp add: step entry_def)
    then show ?thesis
      using Cons.IH [OF pos(1) u e] by simp
  qed
qed

lemma filter_other_increment:
  "filter (\<lambda>i. item_id i \<noteq> k)
     (map (\<lambda>i. if item_id i = k then i\<lparr>quantity := quantity i + 1\<rparr> else i) cart) =
   filter (\<lambda>i. item_id i \<noteq> k) cart"
  by (induction cart) auto

lemma filter_other_addToCart:
  "filter (\<lambda>i. item_id i \<noteq> item_id item) (addToCart item cart) =
   filter (\<lambda>i. item_id i \<noteq> item_id item) cart"
proof (cases "item_id item \<in> set (map item_id cart)")
  case True
  show ?thesis by (simp add: addToCart_present [OF True refl] filter_other_increment)
next
  case False
  then show ?thesis by (simp add: addToCart_absent)
qed

lemma filter_other_updateCartQuantity:
  "all_positive cart \<Longrightarrow>
   filter (\<lambda>i. item_id i \<noteq> k) (updateCartQuantity k d cart) = filter (\<lambda>i. item_id i \<noteq> k) cart"
  unfolding updateCartQuantity_def all_positive_def by (induction cart) auto

lemma subseq_ids_updateCartQuantity:
  "subseq (map item_id (updateCartQuantity k d cart)) (map item_id cart)"
  unfolding updateCartQuantity_def by (induction cart) auto

text \<open>
  C5. For every cart and menu item, \<open>addToCart\<close> adds 1 to the quantity of the entry with
  the item's id if there is one, keeping the length of the cart and every other entry in
  place, and otherwise appends a new entry of quantity 1 at the end; adding the same item
  twice to the empty cart gives one entry of quantity 2.
\<close>

theorem addToCart_spec:
  "(\<forall>e. entry (item_id item) cart = Some e \<longrightarrow>
      length (addToCart item cart) = length cart \<and>
      (\<forall>n < length cart. addToCart item cart ! n =
         (if item_id (cart ! n) = item_id item
          then (cart ! n)\<lparr>quantity := quantity (cart ! n) + 1\<rparr> else cart ! n)) \<and>
      entry (item_id item) (addToCart item cart) = Some (e\<lparr>quantity := quantity e + 1\<rparr>)) \<and>
   (entry (item_id item) cart = None \<longrightarrow>
      addToCart item cart =
        cart @ [\<lparr>item_id = item_id item, item_name = item_name item, price = price item,
                 quantity = 1\<rparr>]) \<and>
   addToCart item (addToCart item []) =
     [\<lparr>item_id = item_id item, item_name = item_name item, price = price item, quantity = 2\<rparr>]"
proof -
  have A: "length (addToCart item cart) = length cart \<and>
      (\<forall>n < length cart. addToCart item cart ! n =
         (if item_id (cart ! n) = item_id item
          then (cart ! n)\<lparr>quantity := quantity (cart ! n) + 1\<rparr> else cart ! n)) \<and>
      entry (item_id item) (addToCart item cart) = Some (e\<lparr>quantity := quantity e + 1\<rparr>)"
    if e: "entry (item_id item) cart = Some e" for e
  proof -
    from e have mem: "item_id item \<in> set (map item_id cart)"
      using entry_None_iff [of "item_id item" cart] by auto
    note eq = addToCart_present [OF mem refl]
    show ?thesis by (simp add: eq entry_increment [OF e])
  qed
  have B: "addToCart item cart =
        cart @ [\<lparr>item_id = item_id item, item_name = item_name item, price = price item,
                 quantity = 1\<rparr>]"
    if "entry (item_id item) cart = None"
    using that by (simp add: entry_None_iff addToCart_absent)
  have C: "addToCart item (addToCart item []) =
     [\<lparr>item_id = item_id item, item_name = item_name item, price = price item, quantity = 2\<rparr>]"
    by (simp add: addToCart_def)
  from A B C show ?thesis by blast
qed

theorem addToCart_spec_witness:
  "entry (item_id idli) [in_cart dosa 1, in_cart idli 2] = Some (in_cart idli 2) \<and>
   addToCart idli [in_cart dosa 1, in_cart idli 2] = [in_cart dosa 1, in_cart idli 3] \<and>
   entry (item_id dosa) [in_cart idli 2] = None \<and>
   addToCart dosa [in_cart idli 2] = [in_cart idli 2, in_cart dosa 1]"
proof -
  have e: "entry (item_id idli) [in_cart dosa 1, in_cart idli 2] = Some (in_cart idli 2)"
    by (simp add: entry_def idli_def dosa_def in_cart_def)
  have n: "entry (item_id dosa) [in_cart idli 2] = None"
    by (simp add: entry_def idli_def dosa_def in_cart_def)
  from addToCart_spec [of idli "[in_cart dosa 1, in_cart idli 2]"] e
  have 1: "length (addToCart idli [in_cart dosa 1, in_cart idli 2]) = 2"
    and 2: "\<forall>n<2. addToCart idli [in_cart dosa 1, in_cart idli 2] ! n =
         (if item_id ([in_cart dosa 1, in_cart idli 2] ! n) = item_id idli
          then ([in_cart dosa 1, in_cart idli 2] ! n)\<lparr>quantity := quantity ([in_cart dosa 1, in_cart idli 2] ! n) + 1\<rparr> else [in_cart dosa 1, in_cart idli 2] ! n)"
    by simp_all
  from 2 have "addToCart idli [in_cart dosa 1, in_cart idli 2] ! 0 = in_cart dosa 1"
    "addToCart idli [in_cart dosa 1, in_cart idli 2] ! 1 = in_cart idli 3"
    by (simp_all add: idli_def dosa_def in_cart_def)
  with 1 have a: "addToCart idli [in_cart dosa 1, in_cart idli 2] = [in_cart dosa 1, in_cart idli 3]"
    by (auto simp: list_eq_iff_nth_eq numeral_2_eq_2 less_Suc_eq)
  from addToCart_spec [of dosa "[in_cart idli 2]"] n
  have b: "addToCart dosa [in_cart idli 2] = [in_cart idli 2, in_cart dosa 1]"
    by (simp add: in_cart_def)
  from e a n b show ?thesis by simp
qed

text \<open>
  C6. For every cart of positive quantities, \<open>updateCartQuantity\<close> sets the quantity of
  the entry with the given id to \<open>max 0 (quantity + delta)\<close> and removes the entry when
  that is 0, leaves the cart as it is when no entry has the id, and leaves no entry of
  quantity 0 or less.
\<close>

theorem updateCartQuantity_spec:
  assumes "all_positive cart"
  shows "updateCartQuantity itemId delta cart = concat (map (updated_entry itemId delta) cart) \<and>
    (entry itemId cart = None \<longrightarrow> updateCartQuantity itemId delta cart = cart) \<and>
    (\<forall>e. unique_ids cart \<and> entry itemId cart = Some e \<longrightarrow>
         entry itemId (updateCartQuantity itemId delta cart) =
           (if max 0 (quantity e + delta) = 0 then None
            else Some (e\<lparr>quantity := max 0 (quantity e + delta)\<rparr>))) \<and>
    (\<forall>i \<in> set (updateCartQuantity itemId delta cart). quantity i > 0)"
proof -
  have "\<forall>i \<in> set (updateCartQuantity itemId delta cart). quantity i > 0"
    by (simp add: updateCartQuantity_def)
  with assms show ?thesis
    by (simp add: updateCartQuantity_concat [symmetric] updateCartQuantity_absent
        entry_update_unique)
qed

theorem updateCartQuantity_spec_witness:
  "all_positive [in_cart dosa 1, in_cart idli 2] \<and>
   unique_ids [in_cart dosa 1, in_cart idli 2] \<and>
   updateCartQuantity ''A'' (- 1) [in_cart dosa 1, in_cart idli 2] = [in_cart dosa 1, in_cart idli 1] \<and>
   updateCartQuantity ''A'' (- 5) [in_cart dosa 1, in_cart idli 2] = [in_cart dosa 1] \<and>
   entry ''A'' (updateCartQuantity ''A'' (- 5) [in_cart dosa 1, in_cart idli 2]) = None \<and>
   entry ''C'' [in_cart dosa 1, in_cart idli 2] = None \<and>
   updateCartQuantity ''C'' 3 [in_cart dosa 1, in_cart idli 2] = [in_cart dosa 1, in_cart idli 2]"
proof -
  let ?cart = "[in_cart dosa 1, in_cart idli 2]"
  have p: "all_positive ?cart" by (simp add: all_positive_def in_cart_def)
  have u: "unique_ids ?cart" by (simp add: unique_ids_def in_cart_def idli_def dosa_def)
  have e: "entry ''A'' ?cart = Some (in_cart idli 2)"
    by (simp add: entry_def in_cart_def idli_def dosa_def)
  have n: "entry ''C'' ?cart = None"
    by (simp add: entry_def in_cart_def idli_def dosa_def)
  have 1: "updateCartQuantity ''A'' (- 1) ?cart = [in_cart dosa 1, in_cart idli 1]"
    using updateCartQuantity_spec [OF p, of "''A''" "- 1"]
    by (simp add: updated_entry_def in_cart_def idli_def dosa_def)
  have 2: "updateCartQuantity ''A'' (- 5) ?cart = [in_cart dosa 1]"
    using updateCartQuantity_spec [OF p, of "''A''" "- 5"]
    by (simp add: updated_entry_def in_cart_def idli_def dosa_def)
  have "\<forall>e. unique_ids ?cart \<and> entry ''A'' ?cart = Some e \<longrightarrow>
         entry ''A'' (updateCartQuantity ''A'' (- 5) ?cart) =
           (if max 0 (quantity e + (- 5)) = 0 then None
            else Some (e\<lparr>quantity := max 0 (quantity e + (- 5))\<rparr>))"
    using updateCartQuantity_spec [OF p, of "''A''" "- 5"] by blast
  with u e have "entry ''A'' (updateCartQuantity ''A'' (- 5) ?cart) =
           (if max 0 (quantity (in_cart idli 2) + (- 5)) = 0 then None
            else Some ((in_cart idli 2)\<lparr>quantity := max 0 (quantity (in_cart idli 2) + (- 5))\<rparr>))"
    by blast
  then have 3: "entry ''A'' (updateCartQuantity ''A'' (- 5) ?cart) = None"
    by (simp add: in_cart_def)
  have 4: "updateCartQuantity ''C'' 3 ?cart = ?cart"
    using updateCartQuantity_spec [OF p, of "''C''" 3] n by blast
  from p u 1 2 3 n 4 show ?thesis by simp
qed

text \<open>
  C10. \<open>addToCart\<close> and, on a cart of positive quantities, \<open>updateCartQuantity\<close> leave
  the entries of every other id as they are and in their order; the ids that remain keep
  their relative order.
\<close>

theorem cart_frame:
  "filter (\<lambda>i. item_id i \<noteq> item_id item) (addToCart item cart) =
     filter (\<lambda>i. item_id i \<noteq> item_id item) cart \<and>
   prefix (map item_id cart) (map item_id (addToCart item cart)) \<and>
   (all_positive cart \<longrightarrow>
     filter (\<lambda>i. item_id i \<noteq> k) (updateCartQuantity k d cart) =
       filter (\<lambda>i. item_id i \<noteq> k) cart \<and>
     subseq (map item_id (updateCartQuantity k d cart)) (map item_id cart))"
  by (simp add: filter_other_addToCart filter_other_updateCartQuantity
      subseq_ids_updateCartQuantity ids_addToCart)

theorem cart_frame_witness:
  "all_positive [in_cart dosa 1, in_cart idli 2, in_cart vada 3] \<and>
   filter (\<lambda>i. item_id i \<noteq> ''A'')
     (updateCartQuantity ''A'' (- 2) [in_cart dosa 1, in_cart idli 2, in_cart vada 3]) =
     [in_cart dosa 1, in_cart vada 3] \<and>
   filter (\<lambda>i. item_id i \<noteq> ''A'')
     (addToCart idli [in_cart dosa 1, in_cart idli 2, in_cart vada 3]) =
     [in_cart dosa 1, in_cart vada 3]"
proof -
  let ?cart = "[in_cart dosa 1, in_cart idli 2, in_cart vada 3]"
  have p: "all_positive ?cart" by (simp add: all_positive_def in_cart_def)
  have i: "item_id idli = ''A''" by (simp add: idli_def)
  have f: "filter (\<lambda>i. item_id i \<noteq> ''A'') ?cart = [in_cart dosa 1, in_cart vada 3]"
    by (simp add: in_cart_def idli_def dosa_def vada_def)
  from cart_frame [of idli ?cart "''A''" "- 2"] p
  show ?thesis by (simp only: i f simp_thms)
qed

section \<open>Properties of pricing and order submission\<close>

lemma foldl_item_total:
  "foldl (\<lambda>acc i. acc + price i * quantity i) a cart = a + (\<Sum>i\<leftarrow>cart. price i * quantity i)"
  by (induction cart arbitrary: a) simp_all

lemma Math_round_tax: "Math_round (of_int n * 0.05) = (n + 10) div 20"
proof -
  have "of_int n * 0.05 + 1 / 2 = (of_int (n + 10) :: real) / of_int 20" by simp
  then have "Math_round (of_int n * 0.05) = \<lfloor>(of_int (n + 10) :: real) / of_int 20\<rfloor>"
    by (simp only: Math_round_def)
  also have "\<dots> = (n + 10) div 20" by (rule floor_divide_of_int_eq)
  finally show ?thesis .
qed

lemma block_Cons_call:
  "block (call e throws # ss) tr = (if throws then (tr @ [e], Thrown e) else block ss (tr @ [e]))"
  by (simp add: call_def)

lemma block_Cons_try_call:
  "block (try_catch (call e throws) # ss) tr = block ss (tr @ [e])"
  by (simp add: call_def try_catch_def)

text \<open>The calls of \<open>handlePlaceOrder\<close>, by which persistence call throws.\<close>

lemma handlePlaceOrder_trace:
  "handlePlaceOrder entries env cart details payment =
     (let ord = order_of entries env cart details payment in
      if saveOrder_throws env then ([SaveOrder ord], Thrown (SaveOrder ord))
      else if saveLastOrder_throws env
      then ([SaveOrder ord, SaveLastOrder cart], Thrown (SaveLastOrder cart))
      else ([SaveOrder ord, SaveLastOrder cart, HapticsNotification,
             LocalNotificationsSchedule [miss_you env], SetCart_empty, SetView SUCCESS,
             WindowOpen (''https://wa.me/919959730602?text='' @
               encodeURIComponent
                 (order_message (generateOrderId env) details (entries cart)
                    (totalAmount ord) payment))],
            Returned))"
  unfolding handlePlaceOrder_def order_of_def Let_def foldl_item_total
  by (simp add: block_Cons_call block_Cons_try_call del: block.simps(2))

lemma saved_orders_handlePlaceOrder:
  "saved_orders (fst (handlePlaceOrder entries env cart details payment)) =
     [order_of entries env cart details payment]"
  by (simp add: handlePlaceOrder_trace Let_def)

text \<open>
  C1. For every cart, the total of the checkout view and the \<open>totalAmount\<close> of the order
  that the submission saves are both the sum of price times quantity over the entries,
  plus 5, plus the delivery fee, plus the rounded twentieth of that sum; with the same
  delivery fee they are equal.
\<close>

theorem totals_agree:
  "checkout_finalTotal env cart =
     (\<Sum>i\<leftarrow>cart. price i * quantity i) + 5 + getDeliveryFee env +
       Math_round (of_int (\<Sum>i\<leftarrow>cart. price i * quantity i) * 0.05) \<and>
   map totalAmount (saved_orders (fst (handlePlaceOrder (\<lambda>c. c) env' cart details payment))) =
     [(\<Sum>i\<leftarrow>cart. price i * quantity i) + 5 + getDeliveryFee env' +
       Math_round (of_int (\<Sum>i\<leftarrow>cart. price i * quantity i) * 0.05)] \<and>
   (getDeliveryFee env' = getDeliveryFee env \<longrightarrow>
     map totalAmount (saved_orders (fst (handlePlaceOrder (\<lambda>c. c) env' cart details payment))) =
       [checkout_finalTotal env cart])"
proof -
  have 1: "checkout_finalTotal env cart =
     (\<Sum>i\<leftarrow>cart. price i * quantity i) + 5 + getDeliveryFee env +
       Math_round (of_int (\<Sum>i\<leftarrow>cart. price i * quantity i) * 0.05)"
    unfolding checkout_finalTotal_def Let_def foldl_item_total by simp
  have 2: "map totalAmount
      (saved_orders (fst (handlePlaceOrder (\<lambda>c. c) env' cart details payment))) =
     [(\<Sum>i\<leftarrow>cart. price i * quantity i) + 5 + getDeliveryFee env' +
       Math_round (of_int (\<Sum>i\<leftarrow>cart. price i * quantity i) * 0.05)]"
    by (simp add: saved_orders_handlePlaceOrder order_of_def)
  from 1 2 show ?thesis by simp
qed

theorem totals_agree_witness:
  "checkout_finalTotal calm_env [in_cart idli 2] = 235 \<and>
   map totalAmount (saved_orders (fst (handlePlaceOrder (\<lambda>c. c) calm_env [in_cart idli 2] asha ''pay_1''))) = [235]"
proof -
  have s: "(\<Sum>i\<leftarrow>[in_cart idli 2]. price i * quantity i) = 200"
    by (simp add: in_cart_def idli_def)
  have f: "getDeliveryFee calm_env = 20" by (simp add: calm_env_def)
  have r: "Math_round (of_int 200 * 0.05) = 10"
    using Math_round_tax [of 200] by simp
  from totals_agree [of calm_env "[in_cart idli 2]" calm_env asha "''pay_1''"]
  show ?thesis unfolding s f r by simp
qed

lemma precedes_nth:
  assumes "precedes a b tr" and "a \<noteq> b" and "j < length tr" and "tr ! j = b"
  shows "\<exists>i<j. tr ! i = a"
proof -
  let ?n = "length (takeWhile (\<lambda>e. e \<noteq> a) tr)"
  have "\<not> j < ?n"
  proof
    assume "j < ?n"
    then have "takeWhile (\<lambda>e. e \<noteq> a) tr ! j \<in> set (takeWhile (\<lambda>e. e \<noteq> a) tr)"
      by (rule nth_mem)
    moreover have "takeWhile (\<lambda>e. e \<noteq> a) tr ! j = tr ! j"
      using \<open>j < ?n\<close> by (rule takeWhile_nth)
    ultimately show False using assms(1,4) by (simp add: precedes_def)
  qed
  then have n: "?n \<le> j" by simp
  with assms(3) have "?n < length tr" by simp
  then have "\<not> (tr ! ?n \<noteq> a)" by (rule nth_length_takeWhile)
  then have a: "tr ! ?n = a" by simp
  with assms(2,4) have "?n \<noteq> j" by auto
  with n a show ?thesis by (intro exI [of _ ?n]) simp
qed

lemma precedes_handlePlaceOrder:
  "b = SetCart_empty \<or> b = SetView SUCCESS \<Longrightarrow>
   precedes (SaveOrder (order_of entries env cart details payment)) b
     (fst (handlePlaceOrder entries env cart details payment)) \<and>
   precedes (SaveLastOrder cart) b
     (fst (handlePlaceOrder entries env cart details payment))"
  by (auto simp: handlePlaceOrder_trace Let_def precedes_def)

text \<open>
  C4. In every run of \<open>handlePlaceOrder\<close>, whichever calls throw, a call that clears the
  cart or shows the success view comes strictly after the calls of \<open>saveOrder\<close> and of
  \<open>saveLastOrder\<close>.
\<close>

theorem persist_before_clear:
  assumes "tr = fst (handlePlaceOrder entries env cart details payment)"
    and "j < length tr"
    and "tr ! j = SetCart_empty \<or> tr ! j = SetView SUCCESS"
  shows "(\<exists>i<j. tr ! i = SaveOrder (order_of entries env cart details payment)) \<and>
         (\<exists>i<j. tr ! i = SaveLastOrder cart)"
proof -
  let ?b = "tr ! j"
  from assms(3) have b: "?b = SetCart_empty \<or> ?b = SetView SUCCESS" .
  from precedes_handlePlaceOrder [OF b, of entries env cart details payment] assms(1)
  have p: "precedes (SaveOrder (order_of entries env cart details payment)) ?b tr"
    and q: "precedes (SaveLastOrder cart) ?b tr"
    by simp_all
  from b have d: "SaveOrder (order_of entries env cart details payment) \<noteq> ?b"
    "SaveLastOrder cart \<noteq> ?b" by auto
  from precedes_nth [OF p d(1) assms(2) refl] precedes_nth [OF q d(2) assms(2) refl]
  show ?thesis by simp
qed

theorem persist_before_clear_witness:
  "fst (handlePlaceOrder (\<lambda>c. c) calm_env [in_cart idli 2] asha ''pay_1'') ! 4 = SetCart_empty \<and>
   (\<exists>i<4. fst (handlePlaceOrder (\<lambda>c. c) calm_env [in_cart idli 2] asha ''pay_1'') ! i =
      SaveOrder (order_of (\<lambda>c. c) calm_env [in_cart idli 2] asha ''pay_1'')) \<and>
   (\<exists>i<4. fst (handlePlaceOrder (\<lambda>c. c) calm_env [in_cart idli 2] asha ''pay_1'') ! i =
      SaveLastOrder [in_cart idli 2])"
proof -
  let ?tr = "fst (handlePlaceOrder (\<lambda>c. c) calm_env [in_cart idli 2] asha ''pay_1'')"
  have l: "4 < length ?tr" by (simp add: handlePlaceOrder_trace Let_def calm_env_def)
  have c: "?tr ! 4 = SetCart_empty" by (simp add: handlePlaceOrder_trace Let_def calm_env_def)
  from persist_before_clear [OF refl l] c show ?thesis by simp
qed

text \<open>
  C7. When both persistence calls return, the run returns normally and ends with clearing
  the cart, showing the success view and opening the messaging link, whether or not the
  haptic call or the scheduling of the reminder throws; the calls are those of a run in
  which neither throws.
\<close>

theorem side_effect_failures_swallowed:
  assumes "\<not> saveOrder_throws env" and "\<not> saveLastOrder_throws env"
  shows "snd (handlePlaceOrder entries env cart details payment) = Returned \<and>
         (\<exists>before url. fst (handlePlaceOrder entries env cart details payment) =
            before @ [SetCart_empty, SetView SUCCESS, WindowOpen url]) \<and>
         handlePlaceOrder entries env cart details payment =
           handlePlaceOrder entries (env\<lparr>haptics_throws := False, schedule_throws := False\<rparr>)
             cart details payment"
proof -
  let ?run = "handlePlaceOrder entries env cart details payment"
  from assms have 1: "snd ?run = Returned"
    by (simp add: handlePlaceOrder_trace Let_def)
  from assms have tr: "fst ?run =
      [SaveOrder (order_of entries env cart details payment), SaveLastOrder cart,
       HapticsNotification, LocalNotificationsSchedule [miss_you env]] @
      [SetCart_empty, SetView SUCCESS,
       WindowOpen (''https://wa.me/919959730602?text='' @
               encodeURIComponent
                 (order_message (generateOrderId env) details (entries cart)
                    (totalAmount (order_of entries env cart details payment)) payment))]"
    by (simp add: handlePlaceOrder_trace Let_def)
  then have 2: "\<exists>before url. fst ?run = before @ [SetCart_empty, SetView SUCCESS, WindowOpen url]"
    by blast
  have 3: "?run =
      handlePlaceOrder entries (env\<lparr>haptics_throws := False, schedule_throws := False\<rparr>)
        cart details payment"
    by (simp add: handlePlaceOrder_trace Let_def order_of_def miss_you_def)
  from 1 2 3 show ?thesis by simp
qed

theorem side_effect_failures_swallowed_witness:
  "haptics_throws stormy_env \<and> schedule_throws stormy_env \<and>
   snd (handlePlaceOrder (\<lambda>c. c) stormy_env [in_cart idli 2] asha ''pay_1'') = Returned \<and>
   (\<exists>before url. fst (handlePlaceOrder (\<lambda>c. c) stormy_env [in_cart idli 2] asha ''pay_1'') =
      before @ [SetCart_empty, SetView SUCCESS, WindowOpen url])"
proof -
  have a: "\<not> saveOrder_throws stormy_env" "\<not> saveLastOrder_throws stormy_env"
    and b: "haptics_throws stormy_env" "schedule_throws stormy_env"
    by (simp_all add: stormy_env_def calm_env_def)
  from side_effect_failures_swallowed [OF a, of "\<lambda>c. c" "[in_cart idli 2]" asha "''pay_1''"] b
  show ?thesis by blast
qed

section \<open>Properties of the realtime watcher\<close>

lemma scheduled_triggerStatusNotification:
  "scheduled (fst (triggerStatusNotification env ord [])) = [status_notification env ord]"
  by (simp add: triggerStatusNotification_def block_Cons_call del: block.simps(2))

lemma scheduled_order_update_event:
  "scheduled (fst (order_update_event (Some user) env newOrder oldOrder)) =
     (if (\<exists>d. userDetails newOrder = Some d \<and> phone d = profile_phone user) \<and>
         status newOrder \<noteq> status oldOrder
      then [status_notification env newOrder] else [])"
  by (auto simp: order_update_event_def on_order_update_def scheduled_triggerStatusNotification
      split: option.splits)

lemma statuses_distinct:
  "OrderStatus_CONFIRMED \<noteq> OrderStatus_DELIVERED"
  "OrderStatus_CONFIRMED \<noteq> OrderStatus_CANCELLED"
  "OrderStatus_DELIVERED \<noteq> OrderStatus_CANCELLED"
  by (simp_all add: OrderStatus_CONFIRMED_def OrderStatus_DELIVERED_def OrderStatus_CANCELLED_def)

text \<open>
  C2. With a user logged in, an update of an order schedules a notification exactly when
  the new row carries user details whose phone is the user's and the new status differs
  from the old one; then it schedules exactly one, titled by the new status: the three
  titles for \<open>CONFIRMED\<close>, \<open>DELIVERED\<close> and \<open>CANCELLED\<close>, and for any other status
  the title \<open>Order Update\<close> with the body naming the status.
\<close>

theorem status_notification_dispatch:
  "scheduled (fst (order_update_event (Some user) env newOrder oldOrder)) =
     (if (\<exists>d. userDetails newOrder = Some d \<and> phone d = profile_phone user) \<and>
         status newOrder \<noteq> status oldOrder
      then [status_notification env newOrder] else []) \<and>
   (status newOrder = OrderStatus_CONFIRMED \<longrightarrow>
      title (status_notification env newOrder) =
        ''Order Confirmed! '' @ [CHR 0xF0, CHR 0x9F, CHR 0x8D, CHR 0xB3]) \<and>
   (status newOrder = OrderStatus_DELIVERED \<longrightarrow>
      title (status_notification env newOrder) =
        ''Order Delivered! '' @ [CHR 0xF0, CHR 0x9F, CHR 0x98, CHR 0x8B]) \<and>
   (status newOrder = OrderStatus_CANCELLED \<longrightarrow>
      title (status_notification env newOrder) =
        ''Order Cancelled '' @ [CHR 0xE2, CHR 0x9D, CHR 0x8C]) \<and>
   (status newOrder \<noteq> OrderStatus_CONFIRMED \<and> status newOrder \<noteq> OrderStatus_DELIVERED \<and>
    status newOrder \<noteq> OrderStatus_CANCELLED \<longrightarrow>
      title (status_notification env newOrder) = ''Order Update'' \<and>
      body (status_notification env newOrder) =
        ''Your order status has changed to '' @ status newOrder)"
proof -
  have t: "title (status_notification env newOrder) =
     (if status newOrder = OrderStatus_CONFIRMED
      then ''Order Confirmed! '' @ [CHR 0xF0, CHR 0x9F, CHR 0x8D, CHR 0xB3]
      else if status newOrder = OrderStatus_DELIVERED
      then ''Order Delivered! '' @ [CHR 0xF0, CHR 0x9F, CHR 0x98, CHR 0x8B]
      else if status newOrder = OrderStatus_CANCELLED
      then ''Order Cancelled '' @ [CHR 0xE2, CHR 0x9D, CHR 0x8C]
      else ''Order Update'')"
    by (simp add: status_notification_def)
  have b: "status newOrder \<noteq> OrderStatus_CONFIRMED \<Longrightarrow> status newOrder \<noteq> OrderStatus_DELIVERED \<Longrightarrow>
      status newOrder \<noteq> OrderStatus_CANCELLED \<Longrightarrow>
      body (status_notification env newOrder) =
        ''Your order status has changed to '' @ status newOrder"
    by (simp add: status_notification_def)
  show ?thesis
    unfolding scheduled_order_update_event t using b statuses_distinct by simp
qed

theorem status_notification_dispatch_witness:
  "map title (scheduled (fst (order_update_event (Some asha_profile) later_env
      (sample_order OrderStatus_CONFIRMED asha) (sample_order OrderStatus_PENDING asha)))) =
     [''Order Confirmed! '' @ [CHR 0xF0, CHR 0x9F, CHR 0x8D, CHR 0xB3]] \<and>
   scheduled (fst (order_update_event (Some asha_profile) later_env
      (sample_order OrderStatus_CONFIRMED ravi) (sample_order OrderStatus_PENDING ravi))) = [] \<and>
   scheduled (fst (order_update_event (Some asha_profile) later_env
      (sample_order OrderStatus_CONFIRMED asha) (sample_order OrderStatus_CONFIRMED asha))) = [] \<and>
   map title (scheduled (fst (order_update_event (Some asha_profile) later_env
      (sample_order OrderStatus_PENDING asha) (sample_order OrderStatus_CONFIRMED asha)))) =
     [''Order Update'']"
proof -
  have s: "status (sample_order st who) = st" "userDetails (sample_order st who) = Some who"
    for st who by (simp_all add: sample_order_def)
  have p: "phone asha = profile_phone asha_profile" "phone ravi \<noteq> profile_phone asha_profile"
    by (simp_all add: asha_def ravi_def asha_profile_def)
  have d: "OrderStatus_CONFIRMED \<noteq> OrderStatus_PENDING" "OrderStatus_PENDING \<noteq> OrderStatus_DELIVERED"
    "OrderStatus_PENDING \<noteq> OrderStatus_CANCELLED"
    by (simp_all add: OrderStatus_CONFIRMED_def OrderStatus_PENDING_def
        OrderStatus_DELIVERED_def OrderStatus_CANCELLED_def)
  from status_notification_dispatch [of asha_profile later_env
      "sample_order OrderStatus_CONFIRMED asha" "sample_order OrderStatus_PENDING asha"]
  have 1: "map title (scheduled (fst (order_update_event (Some asha_profile) later_env
      (sample_order OrderStatus_CONFIRMED asha) (sample_order OrderStatus_PENDING asha)))) =
     [''Order Confirmed! '' @ [CHR 0xF0, CHR 0x9F, CHR 0x8D, CHR 0xB3]]"
    using p d by (simp add: s)
  from status_notification_dispatch [of asha_profile later_env
      "sample_order OrderStatus_CONFIRMED ravi" "sample_order OrderStatus_PENDING ravi"]
  have 2: "scheduled (fst (order_update_event (Some asha_profile) later_env
      (sample_order OrderStatus_CONFIRMED ravi) (sample_order OrderStatus_PENDING ravi))) = []"
    using p d by (simp add: s)
  from status_notification_dispatch [of asha_profile later_env
      "sample_order OrderStatus_CONFIRMED asha" "sample_order OrderStatus_CONFIRMED asha"]
  have 3: "scheduled (fst (order_update_event (Some asha_profile) later_env
      (sample_order OrderStatus_CONFIRMED asha) (sample_order OrderStatus_CONFIRMED asha))) = []"
    by (simp add: s)
  from status_notification_dispatch [of asha_profile later_env
      "sample_order OrderStatus_PENDING asha" "sample_order OrderStatus_CONFIRMED asha"]
  have 4: "map title (scheduled (fst (order_update_event (Some asha_profile) later_env
      (sample_order OrderStatus_PENDING asha) (sample_order OrderStatus_CONFIRMED asha)))) =
     [''Order Update'']"
    using p d by (simp add: s)
  from 1 2 3 4 show ?thesis by simp
qed

text \<open>
  C8. The ids of the scheduled notifications are not kept apart. The reminder of every
  submission has the id 999, and the id of a status notification is the integer part of
  \<open>Math.random() * 100000\<close>, any of the numbers from 0 to 99999: with
  \<open>Math.random() = 655 / 65536\<close> it is 999 as well, a minute after a submission whose
  reminder is due two days later.
\<close>

theorem notification_ids_collide:
  "map notif_id (scheduled (fst (handlePlaceOrder (\<lambda>c. c) calm_env [in_cart idli 2] asha ''pay_1''))) = [999] \<and>
   map notif_id (scheduled (fst (order_update_event (Some asha_profile) later_env
      (sample_order OrderStatus_CONFIRMED asha) (sample_order OrderStatus_PENDING asha)))) = [999] \<and>
   map notif_id (scheduled (fst (handlePlaceOrder (\<lambda>c. c) later_env [in_cart dosa 1] asha ''pay_2''))) = [999] \<and>
   snd (order_update_event (Some asha_profile) later_env
      (sample_order OrderStatus_CONFIRMED asha) (sample_order OrderStatus_PENDING asha)) = Returned \<and>
   Date_now later_env < fire_at (miss_you calm_env) \<and>
   0 \<le> Math_random later_env \<and> Math_random later_env < 1"
proof -
  have 1: "map notif_id (scheduled (fst (handlePlaceOrder (\<lambda>c. c) env cart asha p))) = [999]"
    if "\<not> saveOrder_throws env" "\<not> saveLastOrder_throws env" for env cart p
    using that by (simp add: handlePlaceOrder_trace Let_def miss_you_def)
  have c: "\<not> saveOrder_throws calm_env" "\<not> saveLastOrder_throws calm_env"
    "\<not> saveOrder_throws later_env" "\<not> saveLastOrder_throws later_env"
    by (simp_all add: calm_env_def later_env_def)
  have r: "\<lfloor>Math_random later_env * 100000\<rfloor> = 999"
    by (simp add: later_env_def)
  have 2: "map notif_id (scheduled (fst (order_update_event (Some asha_profile) later_env
      (sample_order OrderStatus_CONFIRMED asha) (sample_order OrderStatus_PENDING asha)))) = [999]"
    unfolding scheduled_order_update_event
    using r by (simp add: sample_order_def asha_def asha_profile_def status_notification_def
        OrderStatus_CONFIRMED_def OrderStatus_PENDING_def Let_def split_def)
  have 3: "Date_now later_env < fire_at (miss_you calm_env)"
    by (simp add: later_env_def calm_env_def miss_you_def)
  have 4: "0 \<le> Math_random later_env \<and> Math_random later_env < 1"
    by (simp add: later_env_def)
  have 5: "snd (order_update_event (Some asha_profile) later_env
      (sample_order OrderStatus_CONFIRMED asha) (sample_order OrderStatus_PENDING asha)) = Returned"
    by (simp add: order_update_event_def on_order_update_def triggerStatusNotification_def
        block_Cons_call sample_order_def asha_def asha_profile_def later_env_def
        OrderStatus_CONFIRMED_def OrderStatus_PENDING_def del: block.simps(2))
  from 1 [OF c(1,2)] 1 [OF c(3,4)] 2 3 4 5 show ?thesis by simp
qed

section \<open>Properties of the admin gate\<close>

lemma logo_effect_below:
  "logoClickCount g < 5 \<Longrightarrow>
   logo_effect g =
     (if logoClickCount g > 0 then g\<lparr>timer := Some (clock g + 2000)\<rparr> else g\<lparr>timer := None\<rparr>)"
  by (subst logo_effect.simps) (simp add: Let_def)

lemma logo_effect_reached:
  "logoClickCount g \<ge> 5 \<Longrightarrow>
   logo_effect g =
     g\<lparr>timer := None, showPinModal := True, prompts := prompts g + 1, logoClickCount := 0\<rparr>"
  by (subst logo_effect.simps) (simp add: Let_def logo_effect_below)

lemma elapse_no_timer: "timer g = None \<Longrightarrow> elapse d g = g\<lparr>clock := clock g + d\<rparr>"
  by (simp add: elapse_def Let_def)

lemma elapse_early:
  "timer g = Some t \<Longrightarrow> clock g + d < t \<Longrightarrow> elapse d g = g\<lparr>clock := clock g + d\<rparr>"
  by (simp add: elapse_def Let_def)

lemma elapse_late:
  "timer g = Some t \<Longrightarrow> t \<le> clock g + d \<Longrightarrow>
   elapse d g = g\<lparr>clock := clock g + d, logoClickCount := 0, timer := None\<rparr>"
  by (simp add: elapse_def Let_def logo_effect_below)

lemma tap_below:
  "logoClickCount g < 4 \<Longrightarrow>
   handleLogoClick g =
     g\<lparr>logoClickCount := logoClickCount g + 1, timer := Some (clock g + 2000)\<rparr>"
  by (simp add: handleLogoClick_def logo_effect_below)

lemma tap_fifth:
  "logoClickCount g \<ge> 4 \<Longrightarrow>
   handleLogoClick g =
     g\<lparr>logoClickCount := 0, timer := None, showPinModal := True, prompts := prompts g + 1\<rparr>"
  by (simp add: handleLogoClick_def logo_effect_reached)

lemma taps_within:
  "timer g = None \<or> timer g = Some (clock g + 2000) \<Longrightarrow>
   logoClickCount g + length ds \<le> 4 \<Longrightarrow> \<forall>d\<in>set ds. d < 2000 \<Longrightarrow>
   logoClickCount (taps ds g) = logoClickCount g + length ds \<and>
   prompts (taps ds g) = prompts g \<and> showPinModal (taps ds g) = showPinModal g \<and>
   (timer (taps ds g) = None \<or> timer (taps ds g) = Some (clock (taps ds g) + 2000))"
proof (induction ds arbitrary: g)
  case Nil
  then show ?case by simp
next
  case (Cons d ds)
  from Cons.prems have d: "d < 2000" by simp
  from Cons.prems(1) d have e: "elapse d g = g\<lparr>clock := clock g + d\<rparr>"
    by (auto simp: elapse_no_timer elapse_early)
  from Cons.prems(2) have "logoClickCount (g\<lparr>clock := clock g + d\<rparr>) < 4" by simp
  from tap_below [OF this]
  have t: "handleLogoClick (g\<lparr>clock := clock g + d\<rparr>) =
      g\<lparr>clock := clock g + d, logoClickCount := logoClickCount g + 1,
        timer := Some (clock g + d + 2000)\<rparr>"
    by simp
  let ?g = "handleLogoClick (g\<lparr>clock := clock g + d\<rparr>)"
  have 1: "timer ?g = None \<or> timer ?g = Some (clock ?g + 2000)" by (simp add: t)
  have 2: "logoClickCount ?g + length ds \<le> 4" using Cons.prems(2) by (simp add: t)
  have 3: "\<forall>d\<in>set ds. d < 2000" using Cons.prems(3) by simp
  have "taps (d # ds) g = taps ds ?g" by (simp add: e)
  with Cons.IH [OF 1 2 3] show ?case by (simp add: t)
qed

lemma first_tap:
  assumes "logoClickCount g = 0" and "timer g = None"
  shows "handleLogoClick (elapse d g) =
     g\<lparr>clock := clock g + d, logoClickCount := 1, timer := Some (clock g + d + 2000)\<rparr>"
proof -
  from assms(2) have e: "elapse d g = g\<lparr>clock := clock g + d\<rparr>" by (rule elapse_no_timer)
  from assms(1) have "logoClickCount (g\<lparr>clock := clock g + d\<rparr>) < 4" by simp
  from tap_below [OF this] assms(1) show ?thesis by (simp add: e)
qed

lemma taps_from_rest:
  assumes "logoClickCount g = 0" and "timer g = None"
    and "length ds \<le> 4" and "\<forall>d\<in>set (tl ds). d < 2000"
  shows "logoClickCount (taps ds g) = length ds \<and>
         prompts (taps ds g) = prompts g \<and> showPinModal (taps ds g) = showPinModal g \<and>
         (timer (taps ds g) = None \<or> timer (taps ds g) = Some (clock (taps ds g) + 2000))"
proof (cases ds)
  case Nil
  with assms(1,2) show ?thesis by simp
next
  case (Cons d ds')
  let ?g = "handleLogoClick (elapse d g)"
  note f = first_tap [OF assms(1,2), of d]
  have 1: "timer ?g = None \<or> timer ?g = Some (clock ?g + 2000)" by (simp add: f)
  have 2: "logoClickCount ?g + length ds' \<le> 4" using assms(3) Cons by (simp add: f)
  have 3: "\<forall>d\<in>set ds'. d < 2000" using assms(4) Cons by simp
  from taps_within [OF 1 2 3] show ?thesis by (simp add: Cons f)
qed

lemma taps_append: "taps (ds @ es) g = taps es (taps ds g)"
  by (induction ds arbitrary: g) simp_all

lemma fifth_tap_from_rest:
  assumes "logoClickCount g = 0" and "timer g = None"
    and "length ds = 5" and "\<forall>d\<in>set (tl ds). d < 2000"
  shows "logoClickCount (taps ds g) = 0 \<and> prompts (taps ds g) = prompts g + 1 \<and>
         showPinModal (taps ds g) \<and> timer (taps ds g) = None"
proof -
  from assms(3) obtain ds' d where ds: "ds = ds' @ [d]" and l: "length ds' = 4"
    by (cases ds rule: rev_cases) auto
  from l have ne: "ds' \<noteq> []" by auto
  from assms(4) ds ne have small: "\<forall>d\<in>set (tl ds'). d < 2000" and d: "d < 2000"
    by (auto simp: tl_append split: list.splits)
  let ?g = "taps ds' g"
  from taps_from_rest [OF assms(1,2), of ds'] l small
  have g: "logoClickCount ?g = 4" "prompts ?g = prompts g"
    "timer ?g = None \<or> timer ?g = Some (clock ?g + 2000)"
    by simp_all
  from g(3) d have e: "elapse d ?g = ?g\<lparr>clock := clock ?g + d\<rparr>"
    by (auto simp: elapse_no_timer elapse_early)
  have "taps ds g = handleLogoClick (elapse d ?g)"
    by (simp add: ds taps_append)
  also have "\<dots> = (elapse d ?g)\<lparr>logoClickCount := 0, timer := None, showPinModal := True,
      prompts := prompts (elapse d ?g) + 1\<rparr>"
    by (rule tap_fifth) (simp add: e g)
  finally show ?thesis by (simp add: e g)
qed

lemma idle_after_tap:
  assumes "2000 \<le> d"
  shows "logoClickCount (elapse d (handleLogoClick g)) = 0 \<and>
         timer (elapse d (handleLogoClick g)) = None \<and>
         prompts (elapse d (handleLogoClick g)) = prompts (handleLogoClick g) \<and>
         showPinModal (elapse d (handleLogoClick g)) = showPinModal (handleLogoClick g)"
proof (cases "logoClickCount g < 4")
  case True
  let ?g = "handleLogoClick g"
  have t: "?g = g\<lparr>logoClickCount := logoClickCount g + 1, timer := Some (clock g + 2000)\<rparr>"
    using True by (rule tap_below)
  have "timer ?g = Some (clock g + 2000)" "clock g + 2000 \<le> clock ?g + d"
    using assms by (simp_all add: t)
  from elapse_late [OF this] show ?thesis by simp
next
  case False
  let ?g = "handleLogoClick g"
  have t: "?g = g\<lparr>logoClickCount := 0, timer := None, showPinModal := True,
      prompts := prompts g + 1\<rparr>"
    using False by (intro tap_fifth) simp
  then have "timer ?g = None" by simp
  from elapse_no_timer [OF this] show ?thesis by (simp add: t)
qed

text \<open>
  C9. The gate rests when its count is 0 and no timeout is pending: so it starts, and so
  it is after a prompt and after a timeout. From every resting gate, up to four taps, each
  less than 2000 ms after the tap before, show no prompt and count the taps; the fifth
  such tap shows the prompt exactly once, sets the count to 0 and leaves the gate resting.
  In any state, 2000 ms or more without a tap after a tap set the count to 0, show no
  prompt and leave the gate resting.
\<close>

theorem tap_counter:
  assumes "logoClickCount g = 0" and "timer g = None"
  shows
  "(length ds \<le> 4 \<and> (\<forall>d\<in>set (tl ds). d < 2000) \<longrightarrow>
      logoClickCount (taps ds g) = length ds \<and>
      prompts (taps ds g) = prompts g \<and> showPinModal (taps ds g) = showPinModal g) \<and>
   (length ds = 5 \<and> (\<forall>d\<in>set (tl ds). d < 2000) \<longrightarrow>
      logoClickCount (taps ds g) = 0 \<and> timer (taps ds g) = None \<and>
      prompts (taps ds g) = prompts g + 1 \<and> showPinModal (taps ds g)) \<and>
   (2000 \<le> idle \<longrightarrow>
      logoClickCount (elapse idle (handleLogoClick h)) = 0 \<and>
      timer (elapse idle (handleLogoClick h)) = None \<and>
      prompts (elapse idle (handleLogoClick h)) = prompts (handleLogoClick h) \<and>
      showPinModal (elapse idle (handleLogoClick h)) = showPinModal (handleLogoClick h)) \<and>
   logoClickCount initial_gate = 0 \<and> timer initial_gate = None \<and>
   prompts initial_gate = 0 \<and> \<not> showPinModal initial_gate"
proof -
  have i: "logoClickCount initial_gate = 0 \<and> timer initial_gate = None \<and>
      prompts initial_gate = 0 \<and> \<not> showPinModal initial_gate"
    by (simp add: initial_gate_def)
  from taps_from_rest [OF assms, of ds] fifth_tap_from_rest [OF assms, of ds]
    idle_after_tap [of idle h] i
  show ?thesis by blast
qed

theorem tap_counter_witness:
  "logoClickCount (taps [0, 300, 1999, 500] initial_gate) = 4 \<and>
   prompts (taps [0, 300, 1999, 500] initial_gate) = 0 \<and>
   \<not> showPinModal (taps [0, 300, 1999, 500] initial_gate) \<and>
   logoClickCount (taps [0, 300, 1999, 500, 700] initial_gate) = 0 \<and>
   prompts (taps [0, 300, 1999, 500, 700] initial_gate) = 1 \<and>
   showPinModal (taps [0, 300, 1999, 500, 700] initial_gate) \<and>
   logoClickCount (taps ([0, 300, 1999, 500, 700] @ [5000, 100, 100]) initial_gate) = 3 \<and>
   prompts (taps ([0, 300, 1999, 500, 700] @ [5000, 100, 100]) initial_gate) = 1 \<and>
   prompts (taps ([0, 300, 1999, 500, 700] @ [5000, 100, 100, 100, 100]) initial_gate) = 2 \<and>
   logoClickCount (elapse 2000 (handleLogoClick (taps [0, 300] initial_gate))) = 0 \<and>
   prompts (elapse 2000 (handleLogoClick (taps [0, 300] initial_gate))) = 0 \<and>
   logoClickCount (taps [10, 20, 30, 40]
     (elapse 2000 (handleLogoClick (taps [0, 300] initial_gate)))) = 4 \<and>
   prompts (taps [10, 20, 30, 40]
     (elapse 2000 (handleLogoClick (taps [0, 300] initial_gate)))) = 0"
proof -
  let ?four = "[0, 300, 1999, 500] :: nat list"
  let ?five = "[0, 300, 1999, 500, 700] :: nat list"
  let ?g2 = "taps ?five initial_gate"
  let ?g3 = "elapse 2000 (handleLogoClick (taps [0, 300] initial_gate))"
  have r0: "logoClickCount initial_gate = 0" "timer initial_gate = None"
    "prompts initial_gate = 0" "\<not> showPinModal initial_gate"
    by (simp_all add: initial_gate_def)
  have a: "length ?four \<le> 4 \<and> (\<forall>d\<in>set (tl ?four). d < 2000)" by simp
  have b: "length ?five = 5 \<and> (\<forall>d\<in>set (tl ?five). d < 2000)" by simp
  have c: "(2000 :: nat) \<le> 2000" by simp
  have two: "length [0, 300 :: nat] \<le> 4 \<and> (\<forall>d\<in>set (tl [0, 300 :: nat]). d < 2000)" by simp
  from tap_counter [OF r0(1,2), of ?four 2000 "taps [0, 300] initial_gate"] a c r0
  have 1: "logoClickCount (taps ?four initial_gate) = 4"
      "prompts (taps ?four initial_gate) = 0" "\<not> showPinModal (taps ?four initial_gate)"
    and 3: "logoClickCount ?g3 = 0" "timer ?g3 = None"
      "prompts ?g3 = prompts (handleLogoClick (taps [0, 300] initial_gate))"
    by simp_all
  from tap_counter [OF r0(1,2), of ?five 2000 initial_gate] b r0
  have 2: "logoClickCount ?g2 = 0" "timer ?g2 = None" "prompts ?g2 = 1" "showPinModal ?g2"
    by simp_all
  have s3: "length [5000, 100, 100 :: nat] \<le> 4 \<and> (\<forall>d\<in>set (tl [5000, 100, 100 :: nat]). d < 2000)"
    by simp
  have s5: "length [5000, 100, 100, 100, 100 :: nat] = 5 \<and>
      (\<forall>d\<in>set (tl [5000, 100, 100, 100, 100 :: nat]). d < 2000)"
    by simp
  from tap_counter [OF 2(1,2), of "[5000, 100, 100]" 2000 initial_gate] s3 2(3)
  have 4: "logoClickCount (taps [5000, 100, 100] ?g2) = 3" "prompts (taps [5000, 100, 100] ?g2) = 1"
    by simp_all
  from tap_counter [OF 2(1,2), of "[5000, 100, 100, 100, 100]" 2000 initial_gate] s5 2(3)
  have 5: "prompts (taps [5000, 100, 100, 100, 100] ?g2) = 2"
    by simp
  from tap_counter [OF r0(1,2), of "[0, 300]" 2000 initial_gate] two r0
  have p2: "logoClickCount (taps [0, 300] initial_gate) = 2" "prompts (taps [0, 300] initial_gate) = 0"
    by simp_all
  from p2 have "logoClickCount (taps [0, 300] initial_gate) < 4" by simp
  from tap_below [OF this] p2
  have p: "prompts (handleLogoClick (taps [0, 300] initial_gate)) = 0" by simp
  have s4: "length [10, 20, 30, 40 :: nat] \<le> 4 \<and> (\<forall>d\<in>set (tl [10, 20, 30, 40 :: nat]). d < 2000)"
    by simp
  from tap_counter [OF 3(1,2), of "[10, 20, 30, 40]" 2000 initial_gate] s4 3(3) p
  have 6: "logoClickCount (taps [10, 20, 30, 40] ?g3) = 4" "prompts (taps [10, 20, 30, 40] ?g3) = 0"
    by simp_all
  have ap: "taps (?five @ es) initial_gate = taps es ?g2" for es
    by (rule taps_append)
  from 1 2 3 4 5 6 p show ?thesis by (simp only: ap) simp
qed

section \<open>Properties of the cart in memory\<close>

lemma extends_refl: "extends h h"
  by (simp add: extends_def)

lemma extends_trans: "extends h1 h2 \<Longrightarrow> extends h2 h3 \<Longrightarrow> extends h1 h3"
  by (auto simp: extends_def)

lemma extends_new_object: "extends h (snd (new_object v h))"
  by (simp add: extends_def new_object_def)

lemma extends_new_array: "extends h (snd (new_array rs h))"
  by (simp add: extends_def new_array_def)

lemma extends_map_refs: "extends h (snd (map_refs f rs h))"
proof (induction rs arbitrary: h)
  case Nil
  show ?case by (simp add: extends_refl)
next
  case (Cons r rs)
  show ?case
  proof (cases "f (objects h r)")
    case None
    with Cons.IH [of h] show ?thesis by (simp add: split_def Let_def)
  next
    case (Some v)
    have "extends h (snd (new_object v h))" by (rule extends_new_object)
    moreover have "extends (snd (new_object v h)) (snd (map_refs f rs (snd (new_object v h))))"
      by (rule Cons.IH)
    ultimately have "extends h (snd (map_refs f rs (snd (new_object v h))))"
      by (rule extends_trans)
    with Some show ?thesis by (simp add: split_def Let_def)
  qed
qed

lemma extends_addToCart_heap: "extends h (snd (addToCart_heap item prev h))"
proof (cases "find (\<lambda>i. item_id i = item_id item) (array_entries h prev)")
  case None
  let ?v = "\<lparr>item_id = item_id item, item_name = item_name item, price = price item,
             quantity = 1\<rparr>"
  have "extends h (snd (new_object ?v h))" by (rule extends_new_object)
  moreover have "extends (snd (new_object ?v h))
      (snd (new_array (arrays h prev @ [fst (new_object ?v h)]) (snd (new_object ?v h))))"
    by (rule extends_new_array)
  ultimately have "extends h
      (snd (new_array (arrays h prev @ [fst (new_object ?v h)]) (snd (new_object ?v h))))"
    by (rule extends_trans)
  with None show ?thesis by (simp add: addToCart_heap_def split_def Let_def)
next
  case (Some e)
  let ?f = "\<lambda>i. if item_id i = item_id item then Some (i\<lparr>quantity := quantity i + 1\<rparr>) else None"
  let ?m = "map_refs ?f (arrays h prev) h"
  have "extends h (snd ?m)" by (rule extends_map_refs)
  moreover have "extends (snd ?m) (snd (new_array (fst ?m) (snd ?m)))"
    by (rule extends_new_array)
  ultimately have "extends h (snd (new_array (fst ?m) (snd ?m)))"
    by (rule extends_trans)
  with Some show ?thesis by (simp add: addToCart_heap_def split_def Let_def)
qed

lemma extends_updateCartQuantity_heap:
  "extends h (snd (updateCartQuantity_heap itemId delta prev h))"
proof -
  let ?f = "\<lambda>item. if item_id item = itemId
      then Some (item\<lparr>quantity := max 0 (quantity item + delta)\<rparr>) else None"
  let ?m = "map_refs ?f (arrays h prev) h"
  let ?a = "new_array (fst ?m) (snd ?m)"
  let ?b = "new_array (filter (\<lambda>r. quantity (objects (snd ?a) r) > 0) (arrays (snd ?a) (fst ?a)))
      (snd ?a)"
  have "extends h (snd ?m)" by (rule extends_map_refs)
  moreover have "extends (snd ?m) (snd ?a)" by (rule extends_new_array)
  moreover have "extends (snd ?a) (snd ?b)" by (rule extends_new_array)
  ultimately have "extends h (snd ?b)" by (blast intro: extends_trans)
  then show ?thesis by (simp add: updateCartQuantity_heap_def split_def Let_def)
qed

lemma extends_perform: "extends (heap s) (heap (perform s act))"
  by (cases act)
     (simp_all add: split_def Let_def extends_addToCart_heap extends_updateCartQuantity_heap
        extends_new_array)

lemma extends_performs: "extends (heap s) (heap (foldl perform s acts))"
proof (induction acts arbitrary: s)
  case Nil
  show ?case by (simp add: extends_refl)
next
  case (Cons act acts)
  have "extends (heap s) (heap (perform s act))" by (rule extends_perform)
  moreover have "extends (heap (perform s act)) (heap (foldl perform (perform s act) acts))"
    by (rule Cons.IH)
  ultimately show ?case by (simp add: extends_trans)
qed

lemma extends_apply_effect: "extends (heap s) (heap (apply_effect s e))"
  by (cases e) (simp_all add: extends_refl split_def Let_def extends_new_array)

lemma extends_apply_effects: "extends (heap s) (heap (foldl apply_effect s tr))"
proof (induction tr arbitrary: s)
  case Nil
  show ?case by (simp add: extends_refl)
next
  case (Cons e tr)
  have "extends (heap s) (heap (apply_effect s e))" by (rule extends_apply_effect)
  moreover have "extends (heap (apply_effect s e)) (heap (foldl apply_effect (apply_effect s e) tr))"
    by (rule Cons.IH)
  ultimately show ?case by (simp add: extends_trans)
qed

lemma array_entries_extends:
  assumes "in_use h a" and "extends h h'"
  shows "array_entries h' a = array_entries h a"
proof -
  from assms have "arrays h' a = arrays h a" by (simp add: in_use_def extends_def)
  moreover from assms have "\<forall>r\<in>set (arrays h a). objects h' r = objects h r"
    by (auto simp: in_use_def extends_def list_all_iff)
  ultimately show ?thesis by (simp add: array_entries_def)
qed

lemma next_ref_new_object: "next_ref (snd (new_object v h)) = Suc (next_ref h)"
  "fst (new_object v h) = next_ref h"
  "objects (snd (new_object v h)) (next_ref h) = v"
  by (simp_all add: new_object_def)

lemma map_refs_entries:
  "list_all (\<lambda>r. r < next_ref h) rs \<Longrightarrow>
   map (objects (snd (map_refs f rs h))) (fst (map_refs f rs h)) =
     map (\<lambda>v. case f v of None \<Rightarrow> v | Some w \<Rightarrow> w) (map (objects h) rs) \<and>
   list_all (\<lambda>r. r < next_ref (snd (map_refs f rs h))) (fst (map_refs f rs h))"
proof (induction rs arbitrary: h)
  case Nil
  show ?case by simp
next
  case (Cons r rs)
  from Cons.prems have r: "r < next_ref h" and rs: "list_all (\<lambda>r. r < next_ref h) rs"
    by simp_all
  show ?case
  proof (cases "f (objects h r)")
    case None
    let ?m = "map_refs f rs h"
    have ex: "extends h (snd ?m)" by (rule extends_map_refs)
    with r have "objects (snd ?m) r = objects h r" "r < next_ref (snd ?m)"
      by (simp_all add: extends_def)
    with Cons.IH [OF rs] None show ?thesis by (simp add: split_def Let_def)
  next
    case (Some v)
    let ?h1 = "snd (new_object v h)"
    let ?m = "map_refs f rs ?h1"
    have rs1: "list_all (\<lambda>r. r < next_ref ?h1) rs"
      using rs by (simp add: next_ref_new_object list_all_iff less_Suc_eq)
    have same: "map (objects ?h1) rs = map (objects h) rs"
      using rs by (auto simp: new_object_def list_all_iff)
    have ex: "extends ?h1 (snd ?m)" by (rule extends_map_refs)
    then have "objects (snd ?m) (next_ref h) = v" "next_ref h < next_ref (snd ?m)"
      by (simp_all add: extends_def next_ref_new_object)
    with Cons.IH [OF rs1] Some same show ?thesis
      by (simp add: split_def Let_def next_ref_new_object)
  qed
qed

text \<open>The operations on the heap compute the carts of \<open>addToCart\<close> and \<open>updateCartQuantity\<close>.\<close>

lemma addToCart_heap_entries:
  assumes "in_use h prev"
  shows "array_entries (snd (addToCart_heap item prev h)) (fst (addToCart_heap item prev h)) =
           addToCart item (array_entries h prev) \<and>
         in_use (snd (addToCart_heap item prev h)) (fst (addToCart_heap item prev h))"
proof (cases "find (\<lambda>i. item_id i = item_id item) (array_entries h prev)")
  case None
  from assms have old: "\<forall>r\<in>set (arrays h prev). r < next_ref h"
    by (simp add: in_use_def list_all_iff)
  then have "map (objects (h\<lparr>objects := (objects h)(next_ref h := v)\<rparr>)) (arrays h prev) =
      map (objects h) (arrays h prev)" for v
    by auto
  with None old show ?thesis
    by (auto simp: addToCart_heap_def addToCart_def array_entries_def new_object_def
        new_array_def Let_def in_use_def list_all_iff less_Suc_eq)
next
  case (Some e)
  let ?f = "\<lambda>i. if item_id i = item_id item then Some (i\<lparr>quantity := quantity i + 1\<rparr>) else None"
  let ?m = "map_refs ?f (arrays h prev) h"
  from assms have "list_all (\<lambda>r. r < next_ref h) (arrays h prev)" by (simp add: in_use_def)
  from map_refs_entries [OF this, of ?f]
  have m: "map (objects (snd ?m)) (fst ?m) =
      map (\<lambda>v. case ?f v of None \<Rightarrow> v | Some w \<Rightarrow> w) (map (objects h) (arrays h prev))"
    and l: "list_all (\<lambda>r. r < next_ref (snd ?m)) (fst ?m)"
    by simp_all
  have g: "(\<lambda>v. case ?f v of None \<Rightarrow> v | Some w \<Rightarrow> w) =
      (\<lambda>i. if item_id i = item_id item then i\<lparr>quantity := quantity i + 1\<rparr> else i)"
    by (rule ext) simp
  from Some m l show ?thesis
    unfolding g
    by (simp add: addToCart_heap_def addToCart_def array_entries_def new_array_def
        split_def Let_def in_use_def list_all_iff less_Suc_eq)
qed

lemma updateCartQuantity_heap_entries:
  assumes "in_use h prev"
  shows "array_entries (snd (updateCartQuantity_heap itemId delta prev h))
           (fst (updateCartQuantity_heap itemId delta prev h)) =
           updateCartQuantity itemId delta (array_entries h prev) \<and>
         in_use (snd (updateCartQuantity_heap itemId delta prev h))
           (fst (updateCartQuantity_heap itemId delta prev h))"
proof -
  let ?f = "\<lambda>item. if item_id item = itemId
      then Some (item\<lparr>quantity := max 0 (quantity item + delta)\<rparr>) else None"
  let ?m = "map_refs ?f (arrays h prev) h"
  from assms have "list_all (\<lambda>r. r < next_ref h) (arrays h prev)" by (simp add: in_use_def)
  from map_refs_entries [OF this, of ?f]
  have m: "map (objects (snd ?m)) (fst ?m) =
      map (\<lambda>v. case ?f v of None \<Rightarrow> v | Some w \<Rightarrow> w) (map (objects h) (arrays h prev))"
    and l: "list_all (\<lambda>r. r < next_ref (snd ?m)) (fst ?m)"
    by simp_all
  have g: "(\<lambda>v. case ?f v of None \<Rightarrow> v | Some w \<Rightarrow> w) =
      (\<lambda>item. if item_id item = itemId
         then item\<lparr>quantity := max 0 (quantity item + delta)\<rparr> else item)"
    by (rule ext) simp
  have f: "map k (filter (\<lambda>r. P (k r)) rs) = filter P (map k rs)"
    for k :: "ref \<Rightarrow> CartItem" and P rs
    by (induction rs) simp_all
  let ?kept = "filter (\<lambda>r. quantity (objects (snd ?m) r) > 0) (fst ?m)"
  let ?h3 = "snd (new_array ?kept (snd (new_array (fst ?m) (snd ?m))))"
  have run: "updateCartQuantity_heap itemId delta prev h =
      new_array ?kept (snd (new_array (fst ?m) (snd ?m)))"
    by (simp add: updateCartQuantity_heap_def split_def Let_def new_array_def)
  have arr: "arrays ?h3 (Suc (next_ref (snd ?m))) = ?kept"
    and obj: "objects ?h3 = objects (snd ?m)"
    and nxt: "next_ref ?h3 = Suc (Suc (next_ref (snd ?m)))"
    and res: "fst (new_array ?kept (snd (new_array (fst ?m) (snd ?m)))) = Suc (next_ref (snd ?m))"
    by (simp_all add: new_array_def)
  have "map (objects (snd ?m)) ?kept = filter (\<lambda>i. quantity i > 0) (map (objects (snd ?m)) (fst ?m))"
    by (rule f)
  also have "\<dots> = updateCartQuantity itemId delta (array_entries h prev)"
    unfolding m g by (simp add: updateCartQuantity_def array_entries_def)
  finally have 1: "array_entries ?h3 (fst (new_array ?kept (snd (new_array (fst ?m) (snd ?m))))) =
      updateCartQuantity itemId delta (array_entries h prev)"
    by (simp only: array_entries_def res arr obj)
  from l have "list_all (\<lambda>r. r < Suc (Suc (next_ref (snd ?m)))) ?kept"
    by (auto simp: list_all_iff)
  then have 2: "in_use ?h3 (fst (new_array ?kept (snd (new_array (fst ?m) (snd ?m)))))"
    by (simp only: in_use_def res arr nxt) simp
  from 1 2 show ?thesis by (simp only: run)
qed

text \<open>The live cart does change under the operations.\<close>

lemma sample_cart_moves_on:
  "array_entries
     (heap (foldl perform sample_session [AddToCart idli, UpdateQuantity ''B'' (- 1)]))
     (cart_ref (foldl perform sample_session [AddToCart idli, UpdateQuantity ''B'' (- 1)])) =
   [in_cart idli 3]"
  by (simp add: sample_session_def sample_heap_def array_entries_def addToCart_heap_def
      updateCartQuantity_heap_def new_array_def new_object_def Let_def split_def
      in_cart_def idli_def dosa_def)

text \<open>
  C3. The order that \<open>handlePlaceOrder\<close> saves refers to the array that was the cart at
  submission. Clearing the cart and any cart operations, while the handler runs or after
  it, leave that array and its entries as they were, so the order reads the same
  afterwards: its items are the entries of the cart at submission and its other fields
  are unchanged.
\<close>

theorem order_snapshot:
  assumes "in_use (heap s) (cart_ref s)"
    and "tr = fst (handlePlaceOrder (array_entries (heap s)) env (cart_ref s) details payment)"
    and "ord \<in> set (saved_orders tr)"
  shows "order_view
           (heap (foldl perform (foldl apply_effect (foldl perform s during) tr) after)) ord =
           order_view (heap s) ord \<and>
         items (order_view (heap s) ord) = array_entries (heap s) (cart_ref s)"
proof -
  from assms(2,3) have ord: "ord = order_of (array_entries (heap s)) env (cart_ref s) details payment"
    by (simp add: saved_orders_handlePlaceOrder)
  then have i: "items ord = cart_ref s" by (simp add: order_of_def)
  let ?s1 = "foldl perform s during"
  let ?s2 = "foldl apply_effect ?s1 tr"
  have "extends (heap s) (heap ?s1)" by (rule extends_performs)
  moreover have "extends (heap ?s1) (heap ?s2)" by (rule extends_apply_effects)
  moreover have "extends (heap ?s2) (heap (foldl perform ?s2 after))" by (rule extends_performs)
  ultimately have "extends (heap s) (heap (foldl perform ?s2 after))"
    by (blast intro: extends_trans)
  from array_entries_extends [OF assms(1) this] i show ?thesis
    by (simp add: order_view_def)
qed

theorem order_snapshot_witness:
  "in_use (heap sample_session) (cart_ref sample_session) \<and>
   saved_orders (fst (handlePlaceOrder (array_entries (heap sample_session)) calm_env
       (cart_ref sample_session) asha ''pay_1'')) =
     [order_of (array_entries sample_heap) calm_env 2 asha ''pay_1''] \<and>
   items (order_view
       (heap (foldl perform
          (foldl apply_effect (foldl perform sample_session [AddToCart vada])
             (fst (handlePlaceOrder (array_entries (heap sample_session)) calm_env
                (cart_ref sample_session) asha ''pay_1'')))
          [AddToCart idli, UpdateQuantity ''A'' (- 5), ClearCart]))
       (order_of (array_entries sample_heap) calm_env 2 asha ''pay_1'')) =
     [in_cart idli 2, in_cart dosa 1]"
proof -
  let ?tr = "fst (handlePlaceOrder (array_entries (heap sample_session)) calm_env
       (cart_ref sample_session) asha ''pay_1'')"
  let ?ord = "order_of (array_entries sample_heap) calm_env 2 asha ''pay_1''"
  have u: "in_use (heap sample_session) (cart_ref sample_session)"
    by (simp add: sample_session_def sample_heap_def in_use_def)
  have so: "saved_orders ?tr = [?ord]"
    by (simp add: saved_orders_handlePlaceOrder sample_session_def)
  then have m: "?ord \<in> set (saved_orders ?tr)" by simp
  have e: "array_entries (heap sample_session) (cart_ref sample_session) =
      [in_cart idli 2, in_cart dosa 1]"
    by (simp add: sample_session_def sample_heap_def array_entries_def)
  from order_snapshot [OF u refl m, of "[AddToCart vada]"
      "[AddToCart idli, UpdateQuantity ''A'' (- 5), ClearCart]"]
  show ?thesis using u so e by simp
qed

end
